theory Spec2Isabelle
  imports Complex_Main
begin

section \<open>JavaScript values\<close>

text \<open>
  The orders module (\<^verbatim>\<open>frontend/static/js/dashboard/orders.js\<close>) works on records that
  arrive as JSON. A number is an IEEE 754 double: not a number, an infinity, negative zero,
  or a finite value (\<open>Fin 0\<close> is positive zero; a \<open>Fin\<close> holds the exact value of a double).
  A property value is \<open>null\<close>, a boolean, a number or a string; a property that is absent
  reads as \<open>undefined\<close>, which is \<open>None\<close> here. A string is the UTF-8 text of the
  JavaScript string.
\<close>

datatype number = NaN | PosInf | NegInf | NegZero | Fin rat

datatype jsval = JNull | JBool bool | JNum number | JStr string

subsection \<open>Rounding to a double\<close>

text \<open>
  Round to nearest, ties to even, in binary64: 53 significant bits, least exponent -1022
  (below it the spacing stays \<open>2\<^sup>-\<^sup>1\<^sup>0\<^sup>7\<^sup>4\<close>), overflow to an infinity from \<open>2\<^sup>1\<^sup>0\<^sup>2\<^sup>4\<close> on.
  \<open>ilog2 x\<close> is the exponent \<open>e\<close> with \<open>2\<^sup>e \<le> x < 2\<^sup>e\<^sup>+\<^sup>1\<close> of a positive \<open>x\<close>.
\<close>

fun bitLength :: "nat \<Rightarrow> nat" where
  "bitLength n = (if n = 0 then 0 else Suc (bitLength (n div 2)))"

declare bitLength.simps [simp del]

definition pow2 :: "int \<Rightarrow> rat" where
  "pow2 e = (if 0 \<le> e then 2 ^ nat e else 1 / 2 ^ nat (- e))"

definition ilog2 :: "rat \<Rightarrow> int" where
  "ilog2 x =
     (if 1 \<le> x then int (bitLength (nat \<lfloor>x\<rfloor>)) - 1
      else - int (bitLength (nat (\<lceil>1 / x\<rceil> - 1))))"

definition roundHalfEven :: "rat \<Rightarrow> int" where
  "roundHalfEven x =
     (let f = \<lfloor>x\<rfloor>; d = x - of_int f
      in if d < 1 / 2 then f else if 1 / 2 < d then f + 1 else if even f then f else f + 1)"

definition roundMagnitude :: "rat \<Rightarrow> rat" where
  "roundMagnitude x =
     (let q = pow2 (max (ilog2 x) (- 1022) - 52) in of_int (roundHalfEven (x / q)) * q)"

definition roundDouble :: "rat \<Rightarrow> number" where
  "roundDouble x =
     (if x = 0 then Fin 0
      else let m = roundMagnitude \<bar>x\<bar>
           in if pow2 1024 \<le> m then (if 0 < x then PosInf else NegInf)
              else if m = 0 then (if 0 < x then Fin 0 else NegZero)
              else Fin (if 0 < x then m else - m))"

text \<open>The number that a decimal numeral of the source, or of a JSON text, denotes.\<close>

definition js :: "rat \<Rightarrow> number" where
  "js d = roundDouble d"

subsection \<open>Arithmetic and comparison of numbers\<close>

fun isZero :: "number \<Rightarrow> bool" where
  "isZero (Fin r) = (r = 0)"
| "isZero NegZero = True"
| "isZero n = False"

fun isInfinite :: "number \<Rightarrow> bool" where
  "isInfinite PosInf = True"
| "isInfinite NegInf = True"
| "isInfinite n = False"

fun negative :: "number \<Rightarrow> bool" where
  "negative NegInf = True"
| "negative NegZero = True"
| "negative (Fin r) = (r < 0)"
| "negative n = False"

fun exactValue :: "number \<Rightarrow> rat" where
  "exactValue (Fin r) = r"
| "exactValue n = 0"

definition signedZero :: "bool \<Rightarrow> number" where
  "signedZero neg = (if neg then NegZero else Fin 0)"

definition signedInf :: "bool \<Rightarrow> number" where
  "signedInf neg = (if neg then NegInf else PosInf)"

fun jsNeg :: "number \<Rightarrow> number" where
  "jsNeg NaN = NaN"
| "jsNeg PosInf = NegInf"
| "jsNeg NegInf = PosInf"
| "jsNeg NegZero = Fin 0"
| "jsNeg (Fin r) = (if r = 0 then NegZero else Fin (- r))"

definition jsMul :: "number \<Rightarrow> number \<Rightarrow> number" where
  "jsMul a b =
     (if a = NaN \<or> b = NaN then NaN
      else if isInfinite a \<or> isInfinite b then
        (if isZero a \<or> isZero b then NaN else signedInf (negative a \<noteq> negative b))
      else if isZero a \<or> isZero b then signedZero (negative a \<noteq> negative b)
      else roundDouble (exactValue a * exactValue b))"

definition jsAdd :: "number \<Rightarrow> number \<Rightarrow> number" where
  "jsAdd a b =
     (if a = NaN \<or> b = NaN then NaN
      else if isInfinite a then (if isInfinite b \<and> a \<noteq> b then NaN else a)
      else if isInfinite b then b
      else if exactValue a + exactValue b = 0 then signedZero (a = NegZero \<and> b = NegZero)
      else roundDouble (exactValue a + exactValue b))"

definition jsSub :: "number \<Rightarrow> number \<Rightarrow> number" where
  "jsSub a b = jsAdd a (jsNeg b)"

definition jsDiv :: "number \<Rightarrow> number \<Rightarrow> number" where
  "jsDiv a b =
     (if a = NaN \<or> b = NaN then NaN
      else if isInfinite a then (if isInfinite b then NaN else signedInf (negative a \<noteq> negative b))
      else if isInfinite b then signedZero (negative a \<noteq> negative b)
      else if isZero b then (if isZero a then NaN else signedInf (negative a \<noteq> negative b))
      else if isZero a then signedZero (negative a \<noteq> negative b)
      else roundDouble (exactValue a / exactValue b))"

text \<open>\<open>a < b\<close>: false when either is not a number; the two zeros are equal.\<close>

fun rank :: "number \<Rightarrow> (int \<times> rat) option" where
  "rank NaN = None"
| "rank NegInf = Some (- 1, 0)"
| "rank PosInf = Some (1, 0)"
| "rank NegZero = Some (0, 0)"
| "rank (Fin r) = Some (0, r)"

definition jsLess :: "number \<Rightarrow> number \<Rightarrow> bool" where
  "jsLess a b =
     (case (rank a, rank b) of
        (Some x, Some y) \<Rightarrow> fst x < fst y \<or> (fst x = fst y \<and> snd x < snd y)
      | _ \<Rightarrow> False)"

subsection \<open>Truth values\<close>

text \<open>\<open>ToBoolean\<close>: what \<^verbatim>\<open>if (x)\<close>, \<^verbatim>\<open>!x\<close> and \<^verbatim>\<open>x || y\<close> test.\<close>

fun truthy :: "jsval option \<Rightarrow> bool" where
  "truthy None = False"
| "truthy (Some JNull) = False"
| "truthy (Some (JBool b)) = b"
| "truthy (Some (JNum n)) = (n \<noteq> NaN \<and> \<not> isZero n)"
| "truthy (Some (JStr s)) = (s \<noteq> [])"

definition js_or :: "jsval option \<Rightarrow> jsval option \<Rightarrow> jsval option" where
  "js_or a b = (if truthy a then a else b)"

text \<open>
  What the module takes from its host. \<open>LocalTZA t isUTC\<close> is the offset of local time from
  UTC in milliseconds, at the UTC time \<open>t\<close> when \<open>isUTC\<close> holds and at the local time \<open>t\<close>
  otherwise, as in ECMAScript. Then the clock, \<^verbatim>\<open>Date.parse\<close> on strings (\<open>None\<close> is an
  invalid date), \<^verbatim>\<open>Number.prototype.toString\<close> on the finite numbers whose numeral is not
  a plain decimal integer, \<open>StringToNumber\<close>, and the order in which
  \<^verbatim>\<open>Array.prototype.sort\<close> leaves an array whose comparator is not consistent: given the
  answers of \<open>SortCompare\<close> for every pair of positions, the positions in their new order.
\<close>

record host =
  LocalTZA :: "int \<Rightarrow> bool \<Rightarrow> int"
  clock_now :: int
  Date_parse :: "string \<Rightarrow> int option"
  Number_toString :: "rat \<Rightarrow> string"
  StringToNumber :: "string \<Rightarrow> number"
  Array_sort :: "number list list \<Rightarrow> nat list"

subsection \<open>Numerals and strings\<close>

definition digit_char :: "nat \<Rightarrow> char" where
  "digit_char d = ''0123456789'' ! d"

fun show_nat :: "nat \<Rightarrow> string" where
  "show_nat n = (if n < 10 then [digit_char n] else show_nat (n div 10) @ [digit_char (n mod 10)])"

declare show_nat.simps [simp del]

definition show_int :: "int \<Rightarrow> string" where
  "show_int i = (if i < 0 then CHR ''-'' # show_nat (nat (- i)) else show_nat (nat i))"

text \<open>
  \<open>Number::toString\<close>: an integer below \<open>10\<^sup>2\<^sup>1\<close> in magnitude prints as its decimal
  numeral, both zeros as \<open>0\<close>; every other finite number is printed by the host.
\<close>

fun numToString :: "host \<Rightarrow> number \<Rightarrow> string" where
  "numToString h NaN = ''NaN''"
| "numToString h PosInf = ''Infinity''"
| "numToString h NegInf = ''-Infinity''"
| "numToString h NegZero = ''0''"
| "numToString h (Fin r) =
     (if of_int \<lfloor>r\<rfloor> = r \<and> \<bar>r\<bar> < 10 ^ 21 then show_int \<lfloor>r\<rfloor> else Number_toString h r)"

fun toStringJS :: "host \<Rightarrow> jsval option \<Rightarrow> string" where
  "toStringJS h None = ''undefined''"
| "toStringJS h (Some JNull) = ''null''"
| "toStringJS h (Some (JBool b)) = (if b then ''true'' else ''false'')"
| "toStringJS h (Some (JNum n)) = numToString h n"
| "toStringJS h (Some (JStr s)) = s"

text \<open>
  The \<^verbatim>\<open>length\<close> of a string counts UTF-16 code units: one for every character of up to
  three bytes, two for a character of four bytes.
\<close>

definition jsLength :: "string \<Rightarrow> nat" where
  "jsLength s =
     length (filter (\<lambda>c. \<not> (128 \<le> (of_char c :: nat) \<and> (of_char c :: nat) < 192)) s)
     + length (filter (\<lambda>c. 240 \<le> (of_char c :: nat)) s)"

text \<open>
  The white space and line terminators of ECMAScript (\<open>StrWhiteSpaceChar\<close>), in UTF-8:
  tab, line feed, vertical tab, form feed, carriage return, space, U+00A0, U+1680,
  U+2000 to U+200A, U+2028, U+2029, U+202F, U+205F, U+3000 and U+FEFF.
\<close>

definition whiteSpace :: "string list" where
  "whiteSpace =
     [[CHR 0x09], [CHR 0x0A], [CHR 0x0B], [CHR 0x0C], [CHR 0x0D], [CHR 0x20],
      [CHR 0xC2, CHR 0xA0], [CHR 0xE1, CHR 0x9A, CHR 0x80],
      [CHR 0xE2, CHR 0x80, CHR 0x80], [CHR 0xE2, CHR 0x80, CHR 0x81],
      [CHR 0xE2, CHR 0x80, CHR 0x82], [CHR 0xE2, CHR 0x80, CHR 0x83],
      [CHR 0xE2, CHR 0x80, CHR 0x84], [CHR 0xE2, CHR 0x80, CHR 0x85],
      [CHR 0xE2, CHR 0x80, CHR 0x86], [CHR 0xE2, CHR 0x80, CHR 0x87],
      [CHR 0xE2, CHR 0x80, CHR 0x88], [CHR 0xE2, CHR 0x80, CHR 0x89],
      [CHR 0xE2, CHR 0x80, CHR 0x8A], [CHR 0xE2, CHR 0x80, CHR 0xA8],
      [CHR 0xE2, CHR 0x80, CHR 0xA9], [CHR 0xE2, CHR 0x80, CHR 0xAF],
      [CHR 0xE2, CHR 0x81, CHR 0x9F], [CHR 0xE3, CHR 0x80, CHR 0x80],
      [CHR 0xEF, CHR 0xBB, CHR 0xBF]]"

definition whitePrefix :: "string \<Rightarrow> nat" where
  "whitePrefix s =
     (case find (\<lambda>w. take (length w) s = w) whiteSpace of None \<Rightarrow> 0 | Some w \<Rightarrow> length w)"

function trimStart :: "string \<Rightarrow> string" where
  "trimStart s = (if whitePrefix s = 0 then s else trimStart (drop (whitePrefix s) s))"
  by pat_completeness auto
termination
proof (relation "measure length")
  show "wf (measure length)" by simp
next
  fix s :: string
  assume "whitePrefix s \<noteq> 0"
  then have "s \<noteq> []"
    by (auto simp: whitePrefix_def whiteSpace_def split: option.splits if_splits)
  then show "(drop (whitePrefix s) s, s) \<in> measure length"
    using \<open>whitePrefix s \<noteq> 0\<close> by simp
qed

declare trimStart.simps [simp del]

text \<open>
  \<^verbatim>\<open>parseInt(string, radix)\<close> as ECMAScript defines it: leading white space is dropped, a
  sign is read, radix \<open>0\<close> (which is also the missing radix) means 10 unless the text
  starts with \<open>0x\<close>, and the value is that of the longest prefix of digits, rounded to a
  double; no digit at all gives \<open>NaN\<close>, and a minus sign before zero gives negative zero.
  (All digits are read; an implementation may read the decimal digits after the 20th as 0.)
\<close>

definition digitValue :: "char \<Rightarrow> nat option" where
  "digitValue c =
     (let n = (of_char c :: nat) in
      if 48 \<le> n \<and> n \<le> 57 then Some (n - 48)
      else if 97 \<le> n \<and> n \<le> 122 then Some (n - 87)
      else if 65 \<le> n \<and> n \<le> 90 then Some (n - 55)
      else None)"

definition isRadixDigit :: "nat \<Rightarrow> char \<Rightarrow> bool" where
  "isRadixDigit R c = (case digitValue c of None \<Rightarrow> False | Some d \<Rightarrow> d < R)"

definition mathInt :: "nat \<Rightarrow> string \<Rightarrow> nat" where
  "mathInt R z = foldl (\<lambda>a c. a * R + (case digitValue c of None \<Rightarrow> 0 | Some d \<Rightarrow> d)) 0 z"

definition parseInt :: "string \<Rightarrow> nat \<Rightarrow> number" where
  "parseInt input radix =
     (let s = trimStart input;
          neg = (take 1 s = ''-'');
          s1 = (if take 1 s = ''+'' \<or> take 1 s = ''-'' then drop 1 s else s);
          stripPrefix = (radix = 0 \<or> radix = 16);
          R = (if radix = 0 then 10 else radix)
      in if R < 2 \<or> 36 < R then NaN
         else
           let hex = (stripPrefix \<and> (take 2 s1 = ''0x'' \<or> take 2 s1 = ''0X''));
               s2 = (if hex then drop 2 s1 else s1);
               R' = (if hex then 16 else R);
               z = takeWhile (isRadixDigit R') s2
           in if z = [] then NaN
              else if neg then
                (if mathInt R' z = 0 then NegZero else roundDouble (- of_nat (mathInt R' z)))
              else roundDouble (of_nat (mathInt R' z)))"

subsection \<open>Dates\<close>

text \<open>
  A \<^verbatim>\<open>Date\<close> is its time value, milliseconds since the epoch, or \<open>None\<close> when invalid.
  \<open>TimeClip\<close> bounds a time value; \<^verbatim>\<open>new Date(v)\<close> parses a string and takes every
  other value as a number, truncated.
\<close>

definition msPerDay :: int where
  "msPerDay = 86400000"

definition truncate_rat :: "rat \<Rightarrow> int" where
  "truncate_rat r = (if 0 \<le> r then \<lfloor>r\<rfloor> else \<lceil>r\<rceil>)"

fun timeClip :: "number \<Rightarrow> int option" where
  "timeClip (Fin r) = (if \<bar>r\<bar> \<le> 8640000000000000 then Some (truncate_rat r) else None)"
| "timeClip NegZero = Some 0"
| "timeClip n = None"

definition timeClipInt :: "int \<Rightarrow> int option" where
  "timeClipInt t = (if \<bar>t\<bar> \<le> 8640000000000000 then Some t else None)"

fun toNumber :: "host \<Rightarrow> jsval option \<Rightarrow> number" where
  "toNumber h None = NaN"
| "toNumber h (Some JNull) = Fin 0"
| "toNumber h (Some (JBool b)) = Fin (if b then 1 else 0)"
| "toNumber h (Some (JNum n)) = n"
| "toNumber h (Some (JStr s)) = StringToNumber h s"

fun newDate :: "host \<Rightarrow> jsval option \<Rightarrow> int option" where
  "newDate h (Some (JStr s)) = Date_parse h s"
| "newDate h v = timeClip (toNumber h v)"

text \<open>
  Local time, and the day, weekday and time within the day of a time, as ECMAScript defines
  them. Day 0 of the epoch was a Thursday.
\<close>

definition LocalTime :: "host \<Rightarrow> int \<Rightarrow> int" where
  "LocalTime h t = t + LocalTZA h t True"

definition UTC :: "host \<Rightarrow> int \<Rightarrow> int" where
  "UTC h t = t - LocalTZA h t False"

definition Day :: "int \<Rightarrow> int" where
  "Day t = t div msPerDay"

definition TimeWithinDay :: "int \<Rightarrow> int" where
  "TimeWithinDay t = t mod msPerDay"

definition WeekDay :: "int \<Rightarrow> int" where
  "WeekDay t = (Day t + 4) mod 7"

definition getDay :: "host \<Rightarrow> int \<Rightarrow> int" where
  "getDay h tv = WeekDay (LocalTime h tv)"

text \<open>
  \<open>DayFromYear\<close> of ECMAScript; the local year of a time value is \<open>y\<close> exactly when its
  local day lies between the first day of \<open>y\<close> and the first day of \<open>y + 1\<close>.
\<close>

definition dayFromYear :: "int \<Rightarrow> int" where
  "dayFromYear y =
     365 * (y - 1970) + (y - 1969) div 4 - (y - 1901) div 100 + (y - 1601) div 400"

definition fullYearIs :: "host \<Rightarrow> int \<Rightarrow> int \<Rightarrow> bool" where
  "fullYearIs h tv y =
     (dayFromYear y \<le> Day (LocalTime h tv) \<and> Day (LocalTime h tv) < dayFromYear (y + 1))"

text \<open>
  \<^verbatim>\<open>d.setDate(d.getDate() + k)\<close> on the date with time value \<open>tv\<close>: \<open>MakeDay\<close> of the
  date's own year and month with the day of the month moved by \<open>k\<close> is the local day
  moved by \<open>k\<close>; the time within the day is kept, and the result is taken back to UTC with
  the offset in force at the new local time. \<^verbatim>\<open>d.setHours(hh, mm, ss, ms)\<close> keeps the local
  day and sets the time within it. Both give the new time value, \<open>None\<close> when out of range.
\<close>

definition setDate :: "host \<Rightarrow> int \<Rightarrow> int \<Rightarrow> int option" where
  "setDate h k tv =
     (let t = LocalTime h tv
      in timeClipInt (UTC h ((Day t + k) * msPerDay + TimeWithinDay t)))"

definition setHours :: "host \<Rightarrow> int \<Rightarrow> int \<Rightarrow> int \<Rightarrow> int \<Rightarrow> int \<Rightarrow> int option" where
  "setHours h hh mm ss ms tv =
     (let t = LocalTime h tv
      in timeClipInt (UTC h (Day t * msPerDay + (hh * 3600000 + mm * 60000 + ss * 1000 + ms))))"

text \<open>
  The text \<^verbatim>\<open>formatDate\<close> returns: the empty string, or the locale's rendering of a date
  (of the invalid date when the time value is \<open>None\<close>).
\<close>

datatype date_text = Empty | LocaleString "int option"

definition formatDate :: "host \<Rightarrow> jsval option \<Rightarrow> date_text" where
  "formatDate h dateString =
     (if \<not> truthy dateString then Empty
      else if (case dateString of Some (JNum n) \<Rightarrow> True | _ \<Rightarrow> False)
              \<or> parseInt (toStringJS h dateString) 0 \<noteq> NaN
      then
        (let timestamp =
               jsMul (parseInt (toStringJS h dateString) 0)
                 (Fin (if jsLength (toStringJS h dateString) \<le> 10 then 1000 else 1))
         in if jsLess timestamp (Fin 86400000) then Empty else LocaleString (timeClip timestamp))
      else
        (case newDate h dateString of
           None \<Rightarrow> Empty
         | Some t \<Rightarrow> if fullYearIs h t 1970 then Empty else LocaleString (Some t)))"

text \<open>
  \<^verbatim>\<open>isWithinCurrentWeek\<close>: the week runs from the local Sunday 00:00:00.000 on or before
  now to 23:59:59.999 of the sixth day after it. A bound that falls out of the range of
  time values is an invalid date, and every comparison with it fails.
\<close>

definition firstDayOfWeek :: "host \<Rightarrow> int option" where
  "firstDayOfWeek h =
     (let now = clock_now h
      in case setDate h (- getDay h now) now of
           None \<Rightarrow> None
         | Some tv \<Rightarrow> setHours h 0 0 0 0 tv)"

definition lastDayOfWeek :: "host \<Rightarrow> int option" where
  "lastDayOfWeek h =
     (case firstDayOfWeek h of
        None \<Rightarrow> None
      | Some firstDay \<Rightarrow>
          (case setDate h 6 firstDay of
             None \<Rightarrow> None
           | Some tv \<Rightarrow> setHours h 23 59 59 999 tv))"

definition isWithinCurrentWeek :: "host \<Rightarrow> jsval option \<Rightarrow> bool" where
  "isWithinCurrentWeek h date =
     (if \<not> truthy date then False
      else case newDate h date of
             None \<Rightarrow> False
           | Some dateObj \<Rightarrow>
               (case (firstDayOfWeek h, lastDayOfWeek h) of
                  (Some firstDay, Some lastDay) \<Rightarrow> firstDay \<le> dateObj \<and> dateObj \<le> lastDay
                | _ \<Rightarrow> False))"

section \<open>Orders and the page\<close>

text \<open>
  An order record is a JSON object. Its \<^verbatim>\<open>id\<close> is kept apart as an integer: the backend
  assigns integer identifiers, the table writes the identifier into \<^verbatim>\<open>data-order-id\<close> as
  its numeral and the handlers read it back from there, so that \<^verbatim>\<open>order.id == orderId\<close> and
  \<^verbatim>\<open>o.id === parseInt(orderId, 10)\<close> both are equality of integers. Every other property
  is an entry of \<open>props\<close>. An update fragment of the status check is a record of the same
  shape, holding the properties the gateway sent.
\<close>

record order =
  oid :: int
  props :: "string \<rightharpoonup> jsval"

definition getProp :: "order \<Rightarrow> string \<Rightarrow> jsval option" where
  "getProp order k = props order k"

definition status :: "order \<Rightarrow> jsval option" where
  "status order = getProp order ''status''"

definition setProp :: "string \<Rightarrow> jsval option \<Rightarrow> order \<Rightarrow> order" where
  "setProp k v order = order\<lparr>props := (props order)(k := v)\<rparr>"

record weekly_summary =
  orderCount :: nat
  totalEarnings :: number
  averagePremium :: number

datatype request =
    FetchPendingOrders bool
  | ExecuteOrder int
  | CancelOrder int
  | CheckOrderStatus
  | PutQuantity int number

text \<open>
  The module's variables (\<open>pendingOrdersData\<close>, \<open>filledOrdersData\<close>, \<open>autoRefreshTimer\<close>) and
  what it touches outside itself: the intervals the window has running and the number of
  handles \<^verbatim>\<open>setInterval\<close> has issued, the requests sent to the gateway, the alerts shown
  (text and level), whether the two table bodies exist in the document, and what the three
  weekly-summary elements show (the numbers handed to \<^verbatim>\<open>formatCurrency\<close>). The summary
  elements are taken to exist: the code writes to them without a test.
\<close>

record page =
  pendingOrdersData :: "order list"
  filledOrdersData :: "order list"
  autoRefreshTimer :: "nat option"
  intervals :: "nat list"
  handles_issued :: nat
  requests :: "request list"
  alerts :: "(string \<times> string) list"
  pending_table :: bool
  filled_table :: bool
  weekly :: weekly_summary

fun findIndex :: "('a \<Rightarrow> bool) \<Rightarrow> 'a list \<Rightarrow> nat option" where
  "findIndex P [] = None"
| "findIndex P (x # xs) = (if P x then Some 0 else map_option Suc (findIndex P xs))"

subsection \<open>The poll scheduler\<close>

text \<open>
  \<^verbatim>\<open>setInterval\<close> returns a fresh handle greater than zero; \<^verbatim>\<open>if (autoRefreshTimer)\<close> holds
  for a handle other than 0.
\<close>

definition timerSet :: "page \<Rightarrow> bool" where
  "timerSet s = (case autoRefreshTimer s of None \<Rightarrow> False | Some t \<Rightarrow> t \<noteq> 0)"

definition startAutoRefresh :: "page \<Rightarrow> page" where
  "startAutoRefresh s =
     (if timerSet s then s
      else let t = Suc (handles_issued s)
           in s\<lparr>autoRefreshTimer := Some t, intervals := intervals s @ [t], handles_issued := t\<rparr>)"

definition stopAutoRefresh :: "page \<Rightarrow> page" where
  "stopAutoRefresh s =
     (case autoRefreshTimer s of
        None \<Rightarrow> s
      | Some t \<Rightarrow>
          if t \<noteq> 0 then s\<lparr>intervals := removeAll t (intervals s), autoRefreshTimer := None\<rparr>
          else s)"

datatype scheduler_call = Start | Stop

fun scheduler :: "scheduler_call \<Rightarrow> page \<Rightarrow> page" where
  "scheduler Start s = startAutoRefresh s"
| "scheduler Stop s = stopAutoRefresh s"

definition runScheduler :: "scheduler_call list \<Rightarrow> page \<Rightarrow> page" where
  "runScheduler calls s = foldl (\<lambda>s c. scheduler c s) s calls"

subsection \<open>Weekly earnings\<close>

definition orderDate :: "order \<Rightarrow> jsval option" where
  "orderDate order = js_or (getProp order ''timestamp'') (getProp order ''created_at'')"

text \<open>
  \<^verbatim>\<open>(fillPrice * 100 * quantity) - commission\<close>: each operand is converted to a number and
  each of the three operations rounds its result to a double.
\<close>

definition netPremium :: "host \<Rightarrow> order \<Rightarrow> number" where
  "netPremium h order =
     (let quantity = js_or (getProp order ''quantity'') (Some (JNum (Fin 1)));
          fillPrice = js_or (js_or (getProp order ''avg_fill_price'') (getProp order ''premium''))
                        (Some (JNum (Fin 0)));
          commission = js_or (getProp order ''commission'') (Some (JNum (Fin 0)))
      in jsSub (jsMul (jsMul (toNumber h fillPrice) (Fin 100)) (toNumber h quantity))
           (toNumber h commission))"

definition updateWeeklyEarningsSummary :: "order list \<Rightarrow> number \<Rightarrow> page \<Rightarrow> page" where
  "updateWeeklyEarningsSummary weeklyOrders earnings s =
     (let count = length weeklyOrders;
          average = (if count > 0 then jsDiv earnings (Fin (of_nat count)) else Fin 0)
      in s\<lparr>weekly := \<lparr>orderCount = count, totalEarnings = earnings, averagePremium = average\<rparr>\<rparr>)"

definition updateFilledOrdersTable :: "host \<Rightarrow> page \<Rightarrow> page" where
  "updateFilledOrdersTable h s =
     (if \<not> filled_table s then s
      else if length (filledOrdersData s) = 0 then s
      else
        let weeklyOrders =
              filter (\<lambda>order. status order = Some (JStr ''executed'') \<and> isWithinCurrentWeek h (orderDate order))
                (filledOrdersData s);
            earnings =
              foldl (\<lambda>acc order.
                       if isWithinCurrentWeek h (orderDate order) then jsAdd acc (netPremium h order)
                       else acc)
                (Fin 0) (filledOrdersData s)
        in updateWeeklyEarningsSummary weeklyOrders earnings s)"

subsection \<open>The pending-orders table\<close>

text \<open>
  The table sorts \<open>pendingOrdersData\<close> in place with a comparator that puts the newest
  first. \<^verbatim>\<open>Array.prototype.sort\<close> compares with \<open>SortCompare\<close>, which is the comparator
  with \<open>NaN\<close> read as 0. ECMAScript fixes the result when \<open>SortCompare\<close> is a consistent
  comparator for the elements (its three relations \<open><\<close>, \<open>=\<close>, \<open>>\<close> are reflexive,
  symmetric and transitive as the standard lists them): the elements in the comparator's
  order, equal ones in their former order. That is what inserting the elements one by one,
  from the last to the first, each before the first element it does not come after,
  produces. When \<open>SortCompare\<close> is not consistent (an order without a time is equal to
  every order, also to two that differ) the order is the host's; the host's answer is taken
  when it is a permutation of the positions, and otherwise the array stays as it is.
\<close>

definition dateNumber :: "int option \<Rightarrow> number" where
  "dateNumber d = (case d of None \<Rightarrow> NaN | Some t \<Rightarrow> Fin (of_int t))"

definition compareOrders :: "host \<Rightarrow> order \<Rightarrow> order \<Rightarrow> number" where
  "compareOrders h a b =
     (case (orderDate a, orderDate b) of
        (Some (JNum x), Some (JNum y)) \<Rightarrow> jsSub y x
      | (timestampA, timestampB) \<Rightarrow>
          jsSub (dateNumber (newDate h timestampB)) (dateNumber (newDate h timestampA)))"

definition sortCompare :: "host \<Rightarrow> order \<Rightarrow> order \<Rightarrow> number" where
  "sortCompare h a b = (if compareOrders h a b = NaN then Fin 0 else compareOrders h a b)"

definition notAfter :: "host \<Rightarrow> order \<Rightarrow> order \<Rightarrow> bool" where
  "notAfter h a b = (\<not> jsLess (Fin 0) (sortCompare h a b))"

definition ltCF :: "host \<Rightarrow> order \<Rightarrow> order \<Rightarrow> bool" where
  "ltCF h a b = jsLess (sortCompare h a b) (Fin 0)"

definition eqCF :: "host \<Rightarrow> order \<Rightarrow> order \<Rightarrow> bool" where
  "eqCF h a b = isZero (sortCompare h a b)"

definition gtCF :: "host \<Rightarrow> order \<Rightarrow> order \<Rightarrow> bool" where
  "gtCF h a b = jsLess (Fin 0) (sortCompare h a b)"

definition consistentComparator :: "host \<Rightarrow> order list \<Rightarrow> bool" where
  "consistentComparator h xs =
     (\<forall>a \<in> set xs. \<forall>b \<in> set xs. \<forall>c \<in> set xs.
        sortCompare h a b \<noteq> NaN
        \<and> eqCF h a a
        \<and> (eqCF h a b \<longrightarrow> eqCF h b a)
        \<and> (eqCF h a b \<and> eqCF h b c \<longrightarrow> eqCF h a c)
        \<and> (ltCF h a b \<and> ltCF h b c \<longrightarrow> ltCF h a c)
        \<and> (gtCF h a b \<and> gtCF h b c \<longrightarrow> gtCF h a c))"

fun insertOrder :: "host \<Rightarrow> order \<Rightarrow> order list \<Rightarrow> order list" where
  "insertOrder h x [] = [x]"
| "insertOrder h x (y # ys) = (if notAfter h x y then x # y # ys else y # insertOrder h x ys)"

definition insertionSort :: "host \<Rightarrow> order list \<Rightarrow> order list" where
  "insertionSort h xs = foldr (insertOrder h) xs []"

definition sortOrders :: "host \<Rightarrow> order list \<Rightarrow> order list" where
  "sortOrders h xs =
     (if consistentComparator h xs then insertionSort h xs
      else let positions = Array_sort h (map (\<lambda>a. map (sortCompare h a) xs) xs)
           in if sort positions = [0..<length xs] then map (\<lambda>i. xs ! i) positions else xs)"

definition updatePendingOrdersTable :: "host \<Rightarrow> page \<Rightarrow> page" where
  "updatePendingOrdersTable h s =
     (if \<not> pending_table s then s
      else if length (pendingOrdersData s) = 0 then s
      else updateFilledOrdersTable h (s\<lparr>pendingOrdersData := sortOrders h (pendingOrdersData s)\<rparr>))"

subsection \<open>Gateway calls\<close>

text \<open>
  The four gateway operations and the quantity request are asynchronous. A handler is
  modelled as one step: it records the request it sends and continues with what the promise
  settled to, \<open>Rejected\<close> with the error's message or \<open>Resolved\<close> with the response,
  which is an object with the fields the handler reads. The client functions themselves
  (\<^verbatim>\<open>api.js\<close>) are not part of these sources, so what they settle to is an argument.
  The steps of other handlers that could run while the request is in flight are not
  interleaved into it.
\<close>

datatype 'a outcome = Rejected string | Resolved 'a

record execute_result =
  ib_order_id :: "jsval option"
  execution_details :: "(string \<rightharpoonup> jsval) option"

record cancel_result =
  cancel_ib_status :: "jsval option"

text \<open>A missing \<^verbatim>\<open>updated_orders\<close> reads as the empty list, a missing result as no success.\<close>

record status_result =
  success :: bool
  updated_orders :: "order list"

text \<open>
  The quantity request: \<^verbatim>\<open>fetch\<close> or the reading of the body threw, or the response was
  not ok (with its status text), or it was ok.
\<close>

datatype put_outcome = PutThrew string | PutNotOk string | PutOk

definition showAlert :: "string \<Rightarrow> string \<Rightarrow> page \<Rightarrow> page" where
  "showAlert message level s = s\<lparr>alerts := alerts s @ [(message, level)]\<rparr>"

definition send :: "request \<Rightarrow> page \<Rightarrow> page" where
  "send r s = s\<lparr>requests := requests s @ [r]\<rparr>"

definition markProcessing :: "execute_result \<Rightarrow> order \<Rightarrow> order" where
  "markProcessing result order =
     (let o1 = setProp ''executed'' (Some (JBool True))
                 (setProp ''status'' (Some (JStr ''processing'')) order)
      in case execution_details result of
           Some details \<Rightarrow>
             setProp ''avg_fill_price'' (details ''avg_fill_price'')
               (setProp ''remaining'' (details ''remaining'')
                 (setProp ''filled'' (details ''filled'')
                   (setProp ''ib_status'' (details ''ib_status'')
                     (setProp ''ib_order_id'' (details ''ib_order_id'') o1))))
         | None \<Rightarrow>
             setProp ''ib_status'' (Some (JStr ''Submitted''))
               (setProp ''ib_order_id'' (js_or (ib_order_id result) (Some (JStr ''Unknown''))) o1))"

definition executeOrderById :: "host \<Rightarrow> int \<Rightarrow> execute_result outcome \<Rightarrow> page \<Rightarrow> page" where
  "executeOrderById h orderId settled s =
     (let s0 = send (ExecuteOrder orderId) s
      in case settled of
           Rejected message \<Rightarrow> showAlert (''Error executing order: '' @ message) ''danger'' s0
         | Resolved result \<Rightarrow>
             let s1 = (case findIndex (\<lambda>order. oid order = orderId) (pendingOrdersData s0) of
                         None \<Rightarrow> s0
                       | Some orderIndex \<Rightarrow>
                           updatePendingOrdersTable h
                             (s0\<lparr>pendingOrdersData :=
                                   (pendingOrdersData s0)
                                     [orderIndex := markProcessing result (pendingOrdersData s0 ! orderIndex)]\<rparr>));
                 s2 = showAlert (''Order sent to TWS (IB Order ID: '' @ toStringJS h (ib_order_id result) @ '')'')
                        ''success'' s1
             in startAutoRefresh s2)"

definition markCanceled :: "cancel_result \<Rightarrow> order \<Rightarrow> order" where
  "markCanceled result order =
     (let o1 = setProp ''status''
                 (Some (JStr (if cancel_ib_status result = Some (JStr ''PendingCancel'')
                              then ''canceling'' else ''canceled''))) order
      in if truthy (cancel_ib_status result) then setProp ''ib_status'' (cancel_ib_status result) o1
         else o1)"

definition cancelOrderById :: "host \<Rightarrow> int \<Rightarrow> cancel_result outcome \<Rightarrow> page \<Rightarrow> page" where
  "cancelOrderById h orderId settled s =
     (let s0 = send (CancelOrder orderId) s
      in case settled of
           Rejected message \<Rightarrow> showAlert (''Error cancelling order: '' @ message) ''danger'' s0
         | Resolved result \<Rightarrow>
             let s1 = (case findIndex (\<lambda>order. oid order = orderId) (pendingOrdersData s0) of
                         None \<Rightarrow> s0
                       | Some orderIndex \<Rightarrow>
                           updatePendingOrdersTable h
                             (s0\<lparr>pendingOrdersData :=
                                   (pendingOrdersData s0)
                                     [orderIndex := markCanceled result (pendingOrdersData s0 ! orderIndex)]\<rparr>));
                 s2 = showAlert ''Order cancellation requested'' ''success'' s1
             in startAutoRefresh s2)"

definition loadFilledOrders :: "host \<Rightarrow> order list option outcome \<Rightarrow> page \<Rightarrow> page" where
  "loadFilledOrders h settled s =
     (let s0 = send (FetchPendingOrders True) s
      in case settled of
           Rejected message \<Rightarrow> showAlert ''Error loading filled orders'' ''danger'' s0
         | Resolved None \<Rightarrow> s0
         | Resolved (Some orders) \<Rightarrow>
             updateFilledOrdersTable h
               (s0\<lparr>filledOrdersData :=
                     filter (\<lambda>order. status order = Some (JStr ''executed'')
                                      \<and> truthy (getProp order ''avg_fill_price'')) orders\<rparr>))"

definition loadPendingOrders ::
  "host \<Rightarrow> order list option outcome \<Rightarrow> order list option outcome \<Rightarrow> page \<Rightarrow> page" where
  "loadPendingOrders h settled settledFilled s =
     (let s0 = send (FetchPendingOrders False) s
      in case settled of
           Rejected message \<Rightarrow> showAlert ''Error loading pending orders'' ''danger'' s0
         | Resolved pendingData \<Rightarrow>
             loadFilledOrders h settledFilled
               (case pendingData of
                  None \<Rightarrow> s0
                | Some orders \<Rightarrow> updatePendingOrdersTable h (s0\<lparr>pendingOrdersData := orders\<rparr>)))"

subsection \<open>The status check\<close>

definition hasProcessingOrders :: "order list \<Rightarrow> bool" where
  "hasProcessingOrders data =
     (\<exists>order \<in> set data. status order \<in> set [Some (JStr ''processing''), Some (JStr ''canceling'')])"

text \<open>The spread \<^verbatim>\<open>{...local, ...updatedOrder}\<close>: the fragment's properties win.\<close>

definition mergeOrder :: "order \<Rightarrow> order \<Rightarrow> order" where
  "mergeOrder local updatedOrder =
     \<lparr>oid = oid updatedOrder, props = props local ++ props updatedOrder\<rparr>"

definition applyUpdate :: "order \<Rightarrow> order list \<times> bool \<Rightarrow> order list \<times> bool" where
  "applyUpdate updatedOrder acc =
     (case acc of
        (data, orderWasExecuted) \<Rightarrow>
          (case findIndex (\<lambda>order. oid order = oid updatedOrder) data of
             None \<Rightarrow> (data, orderWasExecuted)
           | Some orderIndex \<Rightarrow>
               (data[orderIndex := mergeOrder (data ! orderIndex) updatedOrder],
                orderWasExecuted
                \<or> (status (data ! orderIndex) \<noteq> Some (JStr ''executed'')
                    \<and> status updatedOrder = Some (JStr ''executed'')))))"

definition applyUpdates :: "order list \<Rightarrow> order list \<Rightarrow> order list \<times> bool" where
  "applyUpdates updates data = foldl (\<lambda>acc updatedOrder. applyUpdate updatedOrder acc) (data, False) updates"

definition mergeUpdates :: "order list \<Rightarrow> order list \<Rightarrow> order list" where
  "mergeUpdates updates data = fst (applyUpdates updates data)"

definition checkOrdersStatus ::
  "host \<Rightarrow> status_result outcome \<Rightarrow> order list option outcome \<Rightarrow> page \<Rightarrow> page" where
  "checkOrdersStatus h settled settledFilled s =
     (if hasProcessingOrders (pendingOrdersData s) then
        (let s0 = send CheckOrderStatus s
         in case settled of
              Rejected message \<Rightarrow> s0
            | Resolved result \<Rightarrow>
                if success result \<and> length (updated_orders result) > 0 then
                  (let merged = applyUpdates (updated_orders result) (pendingOrdersData s0);
                       s1 = updatePendingOrdersTable h (s0\<lparr>pendingOrdersData := fst merged\<rparr>);
                       s2 = (if snd merged then loadFilledOrders h settledFilled s1 else s1)
                   in if \<not> hasProcessingOrders (pendingOrdersData s2) then stopAutoRefresh s2 else s2)
                else s0)
      else stopAutoRefresh s)"

subsection \<open>Quantity edits\<close>

text \<open>
  \<^verbatim>\<open>updateOrderQuantity\<close> stores the number it is given and sends it; the success alert
  shows it as \<^verbatim>\<open>Number.prototype.toString\<close> prints it.
\<close>

definition updateOrderQuantity :: "host \<Rightarrow> int \<Rightarrow> number \<Rightarrow> put_outcome \<Rightarrow> page \<Rightarrow> page" where
  "updateOrderQuantity h orderId quantity settled s =
     (case findIndex (\<lambda>order. oid order = orderId) (pendingOrdersData s) of
        None \<Rightarrow> s
      | Some orderIndex \<Rightarrow>
          let s0 = send (PutQuantity orderId quantity)
                     (s\<lparr>pendingOrdersData :=
                          (pendingOrdersData s)
                            [orderIndex := setProp ''quantity'' (Some (JNum quantity))
                                             (pendingOrdersData s ! orderIndex)]\<rparr>)
          in (case settled of
                PutThrew message \<Rightarrow> showAlert (''Error updating quantity: '' @ message) ''danger'' s0
              | PutNotOk statusText \<Rightarrow> showAlert (''Failed to update quantity: '' @ statusText) ''danger'' s0
              | PutOk \<Rightarrow> showAlert (''Quantity updated to '' @ numToString h quantity) ''success'' s0))"

text \<open>
  The \<^verbatim>\<open>change\<close> and \<^verbatim>\<open>blur\<close> listeners of a quantity input (they are the same code). The
  input carries its order's identifier, so \<^verbatim>\<open>orderId\<close> is a non-empty numeral and the test
  \<^verbatim>\<open>orderId &&\<close> holds. The result is the page and the text the listener leaves in the
  input: the text it found, or the text it assigns.
\<close>

definition quantityInputListener ::
  "host \<Rightarrow> int \<Rightarrow> string \<Rightarrow> put_outcome \<Rightarrow> page \<Rightarrow> page \<times> string" where
  "quantityInputListener h orderId inputValue settled s =
     (let newQuantity = parseInt inputValue 10
      in if newQuantity \<noteq> NaN \<and> jsLess (Fin 0) newQuantity
         then (updateOrderQuantity h orderId newQuantity settled s, inputValue)
         else
           (case find (\<lambda>order. oid order = orderId) (pendingOrdersData s) of
              None \<Rightarrow> (s, inputValue)
            | Some order \<Rightarrow> (s, toStringJS h (js_or (getProp order ''quantity'') (Some (JNum (Fin 1)))))))"

subsection \<open>Sequences of operations\<close>

datatype event =
    ExecuteClicked int "execute_result outcome"
  | CancelClicked int "cancel_result outcome"
  | StatusPolled "status_result outcome" "order list option outcome"
  | QuantityEdited int string put_outcome

fun handleEvent :: "host \<Rightarrow> event \<Rightarrow> page \<Rightarrow> page" where
  "handleEvent h (ExecuteClicked orderId settled) s = executeOrderById h orderId settled s"
| "handleEvent h (CancelClicked orderId settled) s = cancelOrderById h orderId settled s"
| "handleEvent h (StatusPolled settled settledFilled) s = checkOrdersStatus h settled settledFilled s"
| "handleEvent h (QuantityEdited orderId inputValue settled) s =
     fst (quantityInputListener h orderId inputValue settled s)"

definition runEvents :: "(host \<times> event) list \<Rightarrow> page \<Rightarrow> page" where
  "runEvents events s = foldl (\<lambda>s (h, e). handleEvent h e s) s events"

section \<open>Auxiliary notions\<close>

text \<open>
  The module as it is loaded (its three variables at their initial values, lines 9 to 13),
  in a document that has both tables and whose weekly summary shows zeros.
\<close>

definition initialPage :: page where
  "initialPage =
     \<lparr>pendingOrdersData = [], filledOrdersData = [], autoRefreshTimer = None, intervals = [],
      handles_issued = 0, requests = [], alerts = [], pending_table = True, filled_table = True,
      weekly = \<lparr>orderCount = 0, totalEarnings = Fin 0, averagePremium = Fin 0\<rparr>\<rparr>"

text \<open>
  A host in UTC at Wednesday 15 May 2024, 12:00:00, that parses no date string and no
  numeric string and whose sort leaves an array with an inconsistent comparator in reverse;
  and an order that has a status and nothing else.
\<close>

definition utcHost :: host where
  "utcHost =
     \<lparr>LocalTZA = (\<lambda>t isUTC. 0), clock_now = 1715774400000, Date_parse = (\<lambda>s. None),
      Number_toString = (\<lambda>r. []), StringToNumber = (\<lambda>s. NaN),
      Array_sort = (\<lambda>answers. rev [0..<length answers])\<rparr>"

definition orderWithStatus :: "int \<Rightarrow> string \<Rightarrow> order" where
  "orderWithStatus i st = \<lparr>oid = i, props = [''status'' \<mapsto> JStr st]\<rparr>"

text \<open>The variable \<open>autoRefreshTimer\<close> holds exactly the intervals that are running.\<close>

definition timer_inv :: "page \<Rightarrow> bool" where
  "timer_inv s =
     (intervals s = (case autoRefreshTimer s of None \<Rightarrow> [] | Some t \<Rightarrow> [t])
      \<and> autoRefreshTimer s \<noteq> Some 0)"

text \<open>One round of the \<^verbatim>\<open>forEach\<close> of the status check, on the orders alone.\<close>

definition applyOne :: "order \<Rightarrow> order list \<Rightarrow> order list" where
  "applyOne u data = fst (applyUpdate u (data, False))"

text \<open>
  A filled order as the gateway reports it (executed, with fill price, quantity, commission
  and a creation time in epoch milliseconds), the two filled orders of the weekly example
  (created on Monday 13 and Tuesday 14 May 2024), and a pending order with a quantity.
\<close>

definition filledOrder :: "int \<Rightarrow> number \<Rightarrow> number \<Rightarrow> number \<Rightarrow> number \<Rightarrow> order" where
  "filledOrder i fillPrice quantity commission timestamp =
     \<lparr>oid = i,
      props = [''status'' \<mapsto> JStr ''executed'', ''avg_fill_price'' \<mapsto> JNum fillPrice,
               ''quantity'' \<mapsto> JNum quantity, ''commission'' \<mapsto> JNum commission,
               ''timestamp'' \<mapsto> JNum timestamp]\<rparr>"

definition twoFilledOrders :: "order list" where
  "twoFilledOrders =
     [filledOrder 1 (js 2.50) (js 1) (js 0.65) (js 1715600000000),
      filledOrder 2 (js 1.10) (js 2) (js 0.65) (js 1715700000000)]"


text \<open>An order with a status and a creation time in epoch milliseconds.\<close>

definition orderAt :: "int \<Rightarrow> string \<Rightarrow> number \<Rightarrow> order" where
  "orderAt i st timestamp =
     \<lparr>oid = i, props = [''status'' \<mapsto> JStr st, ''timestamp'' \<mapsto> JNum timestamp]\<rparr>"

text \<open>
  A host on New York time at Wednesday 13 March 2024, 12:00:00 UTC: five hours behind
  UTC, and four hours behind during the summer time of 2024, which began on Sunday 10 March
  at 2:00 local time and ended on 3 November (other years' summer times are left out).
  Its \<^verbatim>\<open>Date.parse\<close> reads the HTTP date of the epoch, the form in which the backend's
  JSON encoder writes a date.
\<close>

definition newYorkHost :: host where
  "newYorkHost =
     \<lparr>LocalTZA =
        (\<lambda>t isUTC.
           if isUTC then (if 1710054000000 \<le> t \<and> t < 1730613600000 then - 14400000 else - 18000000)
           else (if 1710036000000 \<le> t \<and> t < 1730599200000 then - 14400000 else - 18000000)),
      clock_now = 1710331200000,
      Date_parse = (\<lambda>s. if s = ''Thu, 01 Jan 1970 00:00:00 GMT'' then Some 0 else None),
      Number_toString = (\<lambda>r. []), StringToNumber = (\<lambda>s. NaN),
      Array_sort = (\<lambda>answers. rev [0..<length answers])\<rparr>"

definition isDecimal :: "char \<Rightarrow> bool" where
  "isDecimal c = (c \<in> set ''0123456789'')"

text \<open>
  A status check whose response has a fragment with status \<open>pending\<close>; and a store in which
  no order with identifier \<open>i\<close> is pending.
\<close>

definition carriesPending :: "event \<Rightarrow> bool" where
  "carriesPending e =
     (case e of
        StatusPolled (Resolved result) settledFilled \<Rightarrow>
          (\<exists>u \<in> set (updated_orders result). status u = Some (JStr ''pending''))
      | _ \<Rightarrow> False)"

definition leftPending :: "int \<Rightarrow> order list \<Rightarrow> bool" where
  "leftPending i data =
     (\<forall>order \<in> set data. oid order = i \<longrightarrow> status order \<noteq> Some (JStr ''pending''))"

text \<open>
  For the status check as a whole: an order with all the fragments for its identifier merged
  in, a list in which no order stands before one that the comparator puts first, and the
  pending orders a status check leaves (with or without the table in the document).
\<close>

definition mergedWith :: "order list \<Rightarrow> order \<Rightarrow> order" where
  "mergedWith us x = foldl mergeOrder x (filter (\<lambda>u. oid u = oid x) us)"

fun adjacentSorted :: "host \<Rightarrow> order list \<Rightarrow> bool" where
  "adjacentSorted h [] = True"
| "adjacentSorted h [x] = True"
| "adjacentSorted h (x # y # ys) = (notAfter h x y \<and> adjacentSorted h (y # ys))"

definition pollStore :: "bool \<Rightarrow> host \<Rightarrow> status_result outcome \<Rightarrow> order list \<Rightarrow> order list" where
  "pollStore table h settled data =
     (if hasProcessingOrders data then
        (case settled of
           Rejected message \<Rightarrow> data
         | Resolved result \<Rightarrow>
             if success result \<and> length (updated_orders result) > 0 then
               (if table \<and> length (mergeUpdates (updated_orders result) data) > 0
                then sortOrders h (mergeUpdates (updated_orders result) data)
                else mergeUpdates (updated_orders result) data)
             else data)
      else data)"

section \<open>Evaluating the rounding\<close>

lemma floor_rat_numeral: "\<lfloor>numeral a / numeral b :: rat\<rfloor> = numeral a div numeral b"
  using floor_divide_of_int_eq [of "numeral a" "numeral b", where ?'a = rat] by simp

lemma ceiling_rat_numeral: "\<lceil>numeral a / numeral b :: rat\<rceil> = - (- numeral a div numeral b)"
  using ceiling_divide_eq_div [of "numeral a" "numeral b", where ?'a = rat] by simp

lemma bitLength_0: "bitLength 0 = 0"
  by (simp add: bitLength.simps)

lemma bitLength_1: "bitLength (Suc 0) = Suc 0"
  by (simp add: bitLength.simps)

lemma bitLength_numeral: "bitLength (numeral k) = Suc (bitLength (numeral k div 2))"
  by (subst bitLength.simps) simp

lemmas roundDouble_eval =
  roundDouble_def roundMagnitude_def ilog2_def pow2_def roundHalfEven_def Let_def
  floor_rat_numeral ceiling_rat_numeral bitLength_0 bitLength_1 bitLength_numeral

section \<open>Integers are rounded to themselves\<close>

lemma bitLength_less: "n < 2 ^ k \<Longrightarrow> bitLength n \<le> k"
proof (induction k arbitrary: n)
  case 0
  then show ?case by (simp add: bitLength.simps)
next
  case (Suc k)
  show ?case
  proof (cases "n = 0")
    case True
    then show ?thesis by (simp add: bitLength.simps)
  next
    case False
    have "n div 2 < 2 ^ k" using Suc.prems by simp
    then have "bitLength (n div 2) \<le> k" by (rule Suc.IH)
    then show ?thesis using False by (subst bitLength.simps) simp
  qed
qed

lemma bitLength_positive: "0 < n \<Longrightarrow> 0 < bitLength n"
  by (subst bitLength.simps) simp

lemma roundHalfEven_of_int: "roundHalfEven (of_int j) = j"
  by (simp add: roundHalfEven_def)

lemma roundMagnitude_int:
  assumes "0 < m" and "m < 2 ^ 53"
  shows "roundMagnitude (of_int m) = of_int m"
proof -
  let ?b = "bitLength (nat m)"
  have "nat m < 2 ^ 53" using assms by (simp add: nat_less_iff)
  then have hi: "?b \<le> 53" by (rule bitLength_less)
  have lo: "0 < ?b" using assms(1) by (simp add: bitLength_positive)
  have e: "ilog2 (of_int m) = int ?b - 1"
    using assms(1) by (simp add: ilog2_def)
  define n where "n = 53 - ?b"
  have shift: "max (int ?b - 1) (- 1022) - 52 = - int n"
    using hi lo by (simp add: n_def)
  have q: "pow2 (- int n) = 1 / 2 ^ n"
    by (cases "n = 0") (simp_all add: pow2_def)
  have exponent: "max (ilog2 (of_int m)) (- 1022) - 52 = - int n"
    by (simp only: e shift)
  have "of_int m / (1 / 2 ^ n) = (of_int (m * 2 ^ n) :: rat)" by simp
  then have rounded: "roundHalfEven (of_int m / (1 / 2 ^ n)) = m * 2 ^ n"
    by (simp only: roundHalfEven_of_int)
  have "roundMagnitude (of_int m)
          = of_int (roundHalfEven (of_int m / pow2 (- int n))) * pow2 (- int n)"
    by (simp only: roundMagnitude_def Let_def exponent)
  also have "\<dots> = of_int (m * 2 ^ n) * (1 / 2 ^ n)"
    by (simp only: q rounded)
  also have "\<dots> = of_int m" by simp
  finally show ?thesis .
qed

lemma roundDouble_int:
  assumes "\<bar>k\<bar> < 2 ^ 53"
  shows "roundDouble (of_int k) = Fin (of_int k)"
proof (cases "k = 0")
  case True
  then show ?thesis by (simp add: roundDouble_def)
next
  case False
  have m: "roundMagnitude \<bar>of_int k\<bar> = of_int \<bar>k\<bar>"
    using roundMagnitude_int [of "\<bar>k\<bar>"] assms False by simp
  have "(of_int \<bar>k\<bar> :: rat) < of_int (2 ^ 53)"
    using assms by (simp only: of_int_less_iff)
  then have small: "\<not> pow2 1024 \<le> (of_int \<bar>k\<bar> :: rat)"
    by (simp add: pow2_def)
  show ?thesis
    using False small by (auto simp add: roundDouble_def m Let_def)
qed

section \<open>The poll scheduler keeps one timer\<close>

lemma timer_inv_start: "timer_inv s \<Longrightarrow> timer_inv (startAutoRefresh s)"
  by (auto simp: timer_inv_def startAutoRefresh_def timerSet_def Let_def split: option.splits)

lemma timer_inv_stop: "timer_inv s \<Longrightarrow> timer_inv (stopAutoRefresh s)"
  by (auto simp: timer_inv_def stopAutoRefresh_def split: option.splits)

lemma timer_inv_run: "timer_inv s \<Longrightarrow> timer_inv (runScheduler calls s)"
  unfolding runScheduler_def
proof (induction calls arbitrary: s)
  case Nil
  then show ?case by simp
next
  case (Cons c calls)
  then show ?case by (cases c) (simp_all add: timer_inv_start timer_inv_stop)
qed

lemma timer_updateFilledOrdersTable:
  "autoRefreshTimer (updateFilledOrdersTable h s) = autoRefreshTimer s"
  "intervals (updateFilledOrdersTable h s) = intervals s"
  by (simp_all add: updateFilledOrdersTable_def updateWeeklyEarningsSummary_def Let_def)

lemma timer_updatePendingOrdersTable:
  "autoRefreshTimer (updatePendingOrdersTable h s) = autoRefreshTimer s"
  "intervals (updatePendingOrdersTable h s) = intervals s"
  by (simp_all add: updatePendingOrdersTable_def timer_updateFilledOrdersTable)

lemma timer_loadFilledOrders:
  "autoRefreshTimer (loadFilledOrders h settled s) = autoRefreshTimer s"
  "intervals (loadFilledOrders h settled s) = intervals s"
  by (simp_all add: loadFilledOrders_def timer_updateFilledOrdersTable showAlert_def send_def Let_def
        split: outcome.splits option.splits)

lemma timer_inv_executeOrderById:
  assumes "timer_inv s"
  shows "timer_inv (executeOrderById h orderId settled s)"
proof (cases settled)
  case (Rejected message)
  then show ?thesis
    using assms by (simp add: executeOrderById_def send_def showAlert_def timer_inv_def)
next
  case (Resolved result)
  let ?s1 = "case findIndex (\<lambda>order. oid order = orderId) (pendingOrdersData (send (ExecuteOrder orderId) s)) of
               None \<Rightarrow> send (ExecuteOrder orderId) s
             | Some orderIndex \<Rightarrow>
                 updatePendingOrdersTable h
                   (send (ExecuteOrder orderId) s
                      \<lparr>pendingOrdersData :=
                          (pendingOrdersData (send (ExecuteOrder orderId) s))
                            [orderIndex := markProcessing result
                               (pendingOrdersData (send (ExecuteOrder orderId) s) ! orderIndex)]\<rparr>)"
  have "autoRefreshTimer ?s1 = autoRefreshTimer s" "intervals ?s1 = intervals s"
    by (simp_all add: timer_updatePendingOrdersTable send_def split: option.splits)
  then have "timer_inv (showAlert (''Order sent to TWS (IB Order ID: '' @ toStringJS h (ib_order_id result) @ '')'')
                          ''success'' ?s1)"
    using assms by (simp add: timer_inv_def showAlert_def)
  then show ?thesis
    using Resolved by (simp add: executeOrderById_def Let_def timer_inv_start)
qed

lemma timer_inv_cancelOrderById:
  assumes "timer_inv s"
  shows "timer_inv (cancelOrderById h orderId settled s)"
proof (cases settled)
  case (Rejected message)
  then show ?thesis
    using assms by (simp add: cancelOrderById_def send_def showAlert_def timer_inv_def)
next
  case (Resolved result)
  let ?s1 = "case findIndex (\<lambda>order. oid order = orderId) (pendingOrdersData (send (CancelOrder orderId) s)) of
               None \<Rightarrow> send (CancelOrder orderId) s
             | Some orderIndex \<Rightarrow>
                 updatePendingOrdersTable h
                   (send (CancelOrder orderId) s
                      \<lparr>pendingOrdersData :=
                          (pendingOrdersData (send (CancelOrder orderId) s))
                            [orderIndex := markCanceled result
                               (pendingOrdersData (send (CancelOrder orderId) s) ! orderIndex)]\<rparr>)"
  have "autoRefreshTimer ?s1 = autoRefreshTimer s" "intervals ?s1 = intervals s"
    by (simp_all add: timer_updatePendingOrdersTable send_def split: option.splits)
  then have "timer_inv (showAlert ''Order cancellation requested'' ''success'' ?s1)"
    using assms by (simp add: timer_inv_def showAlert_def)
  then show ?thesis
    using Resolved by (simp add: cancelOrderById_def Let_def timer_inv_start)
qed

lemma timer_inv_checkOrdersStatus:
  assumes "timer_inv s"
  shows "timer_inv (checkOrdersStatus h settled settledFilled s)"
proof (cases "hasProcessingOrders (pendingOrdersData s)")
  case False
  then show ?thesis using assms by (simp add: checkOrdersStatus_def timer_inv_stop)
next
  case transient: True
  show ?thesis
  proof (cases settled)
    case (Rejected message)
    then show ?thesis
      using transient assms by (simp add: checkOrdersStatus_def send_def timer_inv_def)
  next
    case (Resolved result)
    show ?thesis
    proof (cases "success result \<and> updated_orders result \<noteq> []")
      case False
      then show ?thesis
        using transient Resolved assms
        by (auto simp add: checkOrdersStatus_def send_def timer_inv_def)
    next
      case True
      let ?merged = "applyUpdates (updated_orders result) (pendingOrdersData (send CheckOrderStatus s))"
      let ?s1 = "updatePendingOrdersTable h (send CheckOrderStatus s\<lparr>pendingOrdersData := fst ?merged\<rparr>)"
      let ?s2 = "if snd ?merged then loadFilledOrders h settledFilled ?s1 else ?s1"
      have "autoRefreshTimer ?s2 = autoRefreshTimer s" "intervals ?s2 = intervals s"
        by (simp_all add: timer_loadFilledOrders timer_updatePendingOrdersTable send_def)
      then have inv2: "timer_inv ?s2" using assms by (simp add: timer_inv_def)
      have "checkOrdersStatus h settled settledFilled s =
              (if \<not> hasProcessingOrders (pendingOrdersData ?s2) then stopAutoRefresh ?s2 else ?s2)"
        using transient Resolved True by (simp add: checkOrdersStatus_def Let_def)
      then show ?thesis using inv2 by (simp add: timer_inv_stop)
    qed
  qed
qed

lemma timer_inv_updateOrderQuantity:
  assumes "timer_inv s"
  shows "timer_inv (updateOrderQuantity h orderId n settled s)"
  using assms
  by (cases settled)
     (simp_all add: updateOrderQuantity_def send_def showAlert_def timer_inv_def Let_def
        split: option.splits)

lemma timer_inv_handleEvent:
  assumes "timer_inv s"
  shows "timer_inv (handleEvent h e s)"
proof (cases e)
  case (ExecuteClicked orderId settled)
  then show ?thesis using assms by (simp add: timer_inv_executeOrderById)
next
  case (CancelClicked orderId settled)
  then show ?thesis using assms by (simp add: timer_inv_cancelOrderById)
next
  case (StatusPolled settled settledFilled)
  then show ?thesis using assms by (simp add: timer_inv_checkOrdersStatus)
next
  case (QuantityEdited orderId v settled)
  then show ?thesis
    using assms timer_inv_updateOrderQuantity [OF assms]
    by (simp add: quantityInputListener_def Let_def split: option.splits)
qed

lemma timer_inv_runEvents: "timer_inv s \<Longrightarrow> timer_inv (runEvents events s)"
  unfolding runEvents_def
proof (induction events arbitrary: s)
  case Nil
  then show ?case by simp
next
  case (Cons x events)
  obtain h e where x: "x = (h, e)" by (cases x)
  have "timer_inv (handleEvent h e s)" using Cons.prems by (rule timer_inv_handleEvent)
  then show ?case using Cons.IH [of "handleEvent h e s"] x by simp
qed

lemma timer_inv_length: "timer_inv s \<Longrightarrow> length (intervals s) \<le> 1 \<and> (timerSet s \<longleftrightarrow> length (intervals s) = 1)"
  by (auto simp: timer_inv_def timerSet_def split: option.splits)

text \<open>
  Claim C5. Starting from a page with no timer, after any sequence of \<open>start()\<close> and
  \<open>stop()\<close> calls at most one interval is running, and one is running exactly when
  \<open>autoRefreshTimer\<close> is set; \<open>start()\<close> while a timer is active changes nothing, and two
  successive \<open>start()\<close> calls leave exactly one interval; \<open>stop()\<close> clears the handle and
  leaves no interval running, and changes nothing when no timer is active (in particular
  before any \<open>start()\<close>). The execute, cancel, status-check and quantity handlers, which
  reach the timer only through these two functions, keep it so.
\<close>

theorem scheduler_single_timer:
  assumes "autoRefreshTimer s = None" and "intervals s = []"
  shows "length (intervals (runScheduler calls s)) \<le> 1
       \<and> (timerSet (runScheduler calls s) \<longleftrightarrow> length (intervals (runScheduler calls s)) = 1)
       \<and> (timerSet (runScheduler calls s) \<longrightarrow>
            startAutoRefresh (runScheduler calls s) = runScheduler calls s)
       \<and> length (intervals (runScheduler (calls @ [Start, Start]) s)) = 1
       \<and> autoRefreshTimer (stopAutoRefresh (runScheduler calls s)) = None
       \<and> intervals (stopAutoRefresh (runScheduler calls s)) = []
       \<and> (\<not> timerSet (runScheduler calls s) \<longrightarrow>
            stopAutoRefresh (runScheduler calls s) = runScheduler calls s)
       \<and> stopAutoRefresh s = s
       \<and> length (intervals (runEvents events (runScheduler calls s))) \<le> 1
       \<and> (timerSet (runEvents events (runScheduler calls s)) \<longleftrightarrow>
            length (intervals (runEvents events (runScheduler calls s))) = 1)"
proof -
  let ?r = "runScheduler calls s"
  have start: "timer_inv s" using assms by (simp add: timer_inv_def)
  then have inv: "timer_inv ?r" by (rule timer_inv_run)
  have inv2: "timer_inv (runScheduler (calls @ [Start, Start]) s)"
    using start by (rule timer_inv_run)
  have set2: "timerSet (runScheduler (calls @ [Start, Start]) s)"
    by (simp add: runScheduler_def startAutoRefresh_def timerSet_def Let_def split: option.splits)
  have events: "length (intervals (runEvents events ?r)) \<le> 1
                \<and> (timerSet (runEvents events ?r) \<longleftrightarrow> length (intervals (runEvents events ?r)) = 1)"
    using inv by (intro timer_inv_length timer_inv_runEvents)
  have calls: "length (intervals ?r) \<le> 1
       \<and> (timerSet ?r \<longleftrightarrow> length (intervals ?r) = 1)
       \<and> (timerSet ?r \<longrightarrow> startAutoRefresh ?r = ?r)
       \<and> length (intervals (runScheduler (calls @ [Start, Start]) s)) = 1
       \<and> autoRefreshTimer (stopAutoRefresh ?r) = None
       \<and> intervals (stopAutoRefresh ?r) = []
       \<and> (\<not> timerSet ?r \<longrightarrow> stopAutoRefresh ?r = ?r)
       \<and> stopAutoRefresh s = s"
    using inv inv2 set2 assms
    by (auto simp: timer_inv_def timerSet_def startAutoRefresh_def stopAutoRefresh_def
             split: option.splits)
  show ?thesis using calls events by simp
qed

text \<open>
  The claim at the freshly loaded page, with the calls start, stop, start, followed by a
  status check on a page without transient orders (which stops the timer).
\<close>

theorem scheduler_single_timer_witness:
  "autoRefreshTimer initialPage = None \<and> intervals initialPage = []
   \<and> timerSet (runScheduler [Start, Stop, Start] initialPage)
   \<and> intervals (runScheduler [Start, Stop, Start] initialPage) = [2]
   \<and> startAutoRefresh (runScheduler [Start, Stop, Start] initialPage)
       = runScheduler [Start, Stop, Start] initialPage
   \<and> length (intervals (runScheduler ([Start, Stop, Start] @ [Start, Start]) initialPage)) = 1
   \<and> intervals (stopAutoRefresh (runScheduler [Start, Stop, Start] initialPage)) = []
   \<and> stopAutoRefresh initialPage = initialPage
   \<and> intervals
        (runEvents [(utcHost, StatusPolled (Rejected []) (Rejected []))]
           (runScheduler [Start, Stop, Start] initialPage)) = []"
  using scheduler_single_timer
    [of initialPage "[Start, Stop, Start]" "[(utcHost, StatusPolled (Rejected []) (Rejected []))]"]
  by (simp add: initialPage_def runScheduler_def runEvents_def startAutoRefresh_def
        stopAutoRefresh_def timerSet_def checkOrdersStatus_def hasProcessingOrders_def)

section \<open>Transient orders and the idle status check\<close>

text \<open>
  Claim C6. The test of the status check (\<open>hasTransient\<close>) holds exactly when some order's
  status is \<open>processing\<close> or \<open>canceling\<close>; so, on a store whose statuses are among the six
  of the order lifecycle, it fails exactly when every order's status is \<open>pending\<close>,
  \<open>executed\<close>, \<open>canceled\<close> or \<open>rejected\<close>.
\<close>

theorem hasTransient_iff:
  "(hasProcessingOrders data \<longleftrightarrow>
      (\<exists>order \<in> set data.
         status order = Some (JStr ''processing'') \<or> status order = Some (JStr ''canceling'')))
   \<and> ((\<forall>order \<in> set data.
          status order \<in> {Some (JStr ''pending''), Some (JStr ''processing''),
                           Some (JStr ''canceling''), Some (JStr ''executed''),
                           Some (JStr ''canceled''), Some (JStr ''rejected'')})
        \<longrightarrow> (\<not> hasProcessingOrders data \<longleftrightarrow>
               (\<forall>order \<in> set data.
                  status order \<in> {Some (JStr ''pending''), Some (JStr ''executed''),
                                   Some (JStr ''canceled''), Some (JStr ''rejected'')})))"
  by (auto simp: hasProcessingOrders_def)

text \<open>A store of a pending and an executed order is not transient; adding a canceling one makes it so.\<close>

theorem hasTransient_iff_witness:
  "status (orderWithStatus 1 ''pending'') = Some (JStr ''pending'')
   \<and> status (orderWithStatus 2 ''executed'') = Some (JStr ''executed'')
   \<and> \<not> hasProcessingOrders [orderWithStatus 1 ''pending'', orderWithStatus 2 ''executed'']
   \<and> hasProcessingOrders
        [orderWithStatus 1 ''pending'', orderWithStatus 2 ''executed'', orderWithStatus 3 ''canceling'']"
  using hasTransient_iff [of "[orderWithStatus 1 ''pending'', orderWithStatus 2 ''executed'']"]
    hasTransient_iff
      [of "[orderWithStatus 1 ''pending'', orderWithStatus 2 ''executed'', orderWithStatus 3 ''canceling'']"]
  by (simp add: orderWithStatus_def status_def getProp_def)

text \<open>
  Claim C10. When no order is \<open>processing\<close> or \<open>canceling\<close>, the status check does nothing
  but stop the scheduler: it sends no request, leaves both order collections as they are,
  and afterwards no timer is set and the interval it held is no longer running.
\<close>

theorem checkOrdersStatus_idle:
  assumes "\<not> hasProcessingOrders (pendingOrdersData s)"
  shows "checkOrdersStatus h settled settledFilled s = stopAutoRefresh s
       \<and> requests (checkOrdersStatus h settled settledFilled s) = requests s
       \<and> pendingOrdersData (checkOrdersStatus h settled settledFilled s) = pendingOrdersData s
       \<and> filledOrdersData (checkOrdersStatus h settled settledFilled s) = filledOrdersData s
       \<and> \<not> timerSet (checkOrdersStatus h settled settledFilled s)
       \<and> (\<forall>t. autoRefreshTimer s = Some t \<longrightarrow> t \<noteq> 0 \<longrightarrow>
              t \<notin> set (intervals (checkOrdersStatus h settled settledFilled s)))"
  using assms
  by (auto simp: checkOrdersStatus_def stopAutoRefresh_def timerSet_def split: option.splits)

text \<open>The status check on a page whose only order is executed and whose timer is running.\<close>

theorem checkOrdersStatus_idle_witness:
  "\<not> hasProcessingOrders
       (pendingOrdersData
          (startAutoRefresh (initialPage\<lparr>pendingOrdersData := [orderWithStatus 1 ''executed'']\<rparr>)))
   \<and> intervals (startAutoRefresh (initialPage\<lparr>pendingOrdersData := [orderWithStatus 1 ''executed'']\<rparr>)) = [1]
   \<and> requests
        (checkOrdersStatus utcHost (Rejected []) (Rejected [])
           (startAutoRefresh (initialPage\<lparr>pendingOrdersData := [orderWithStatus 1 ''executed'']\<rparr>))) = []
   \<and> pendingOrdersData
        (checkOrdersStatus utcHost (Rejected []) (Rejected [])
           (startAutoRefresh (initialPage\<lparr>pendingOrdersData := [orderWithStatus 1 ''executed'']\<rparr>)))
       = [orderWithStatus 1 ''executed'']
   \<and> autoRefreshTimer
        (checkOrdersStatus utcHost (Rejected []) (Rejected [])
           (startAutoRefresh (initialPage\<lparr>pendingOrdersData := [orderWithStatus 1 ''executed'']\<rparr>))) = None
   \<and> intervals
        (checkOrdersStatus utcHost (Rejected []) (Rejected [])
           (startAutoRefresh (initialPage\<lparr>pendingOrdersData := [orderWithStatus 1 ''executed'']\<rparr>))) = []"
  using checkOrdersStatus_idle
    [of "startAutoRefresh (initialPage\<lparr>pendingOrdersData := [orderWithStatus 1 ''executed'']\<rparr>)"
        utcHost "Rejected []" "Rejected []"]
  by (simp add: initialPage_def startAutoRefresh_def stopAutoRefresh_def timerSet_def
        hasProcessingOrders_def orderWithStatus_def status_def getProp_def)

section \<open>A rejected execute request\<close>

text \<open>
  Claim C7. When the gateway's execute request is rejected, \<open>executeOrderById\<close> changes
  nothing of the module's state: the pending and filled orders (status, \<open>executed\<close> flag and
  IB fields included) and the timer are as before. The page differs only in the one
  execute request that was sent (there is no second one) and in the alert of level
  \<open>danger\<close> that shows the error's message.
\<close>

theorem executeOrderById_rejected:
  "executeOrderById h orderId (Rejected message) s
     = s\<lparr>requests := requests s @ [ExecuteOrder orderId],
         alerts := alerts s @ [(''Error executing order: '' @ message, ''danger'')]\<rparr>
   \<and> pendingOrdersData (executeOrderById h orderId (Rejected message) s) = pendingOrdersData s
   \<and> filledOrdersData (executeOrderById h orderId (Rejected message) s) = filledOrdersData s
   \<and> autoRefreshTimer (executeOrderById h orderId (Rejected message) s) = autoRefreshTimer s
   \<and> intervals (executeOrderById h orderId (Rejected message) s) = intervals s
   \<and> requests (executeOrderById h orderId (Rejected message) s) = requests s @ [ExecuteOrder orderId]
   \<and> alerts (executeOrderById h orderId (Rejected message) s)
       = alerts s @ [(''Error executing order: '' @ message, ''danger'')]"
  by (simp add: executeOrderById_def send_def showAlert_def)

section \<open>Merging the same fragments twice\<close>

lemma fst_applyUpdate: "fst (applyUpdate u (data, b)) = applyOne u data"
  by (simp add: applyUpdate_def applyOne_def split: option.splits)

lemma fst_foldl_applyUpdate:
  "fst (foldl (\<lambda>acc u. applyUpdate u acc) acc us) = foldl (\<lambda>d u. applyOne u d) (fst acc) us"
proof (induction us arbitrary: acc)
  case Nil
  then show ?case by simp
next
  case (Cons u us)
  show ?case by (cases acc) (simp add: Cons.IH fst_applyUpdate)
qed

lemma mergeUpdates_foldl: "mergeUpdates us data = foldl (\<lambda>d u. applyOne u d) data us"
  by (simp add: mergeUpdates_def applyUpdates_def fst_foldl_applyUpdate)

lemma applyOne_Nil: "applyOne u [] = []"
  by (simp add: applyOne_def applyUpdate_def)

lemma applyOne_Cons:
  "applyOne u (x # xs) = (if oid x = oid u then mergeOrder x u # xs else x # applyOne u xs)"
  by (simp add: applyOne_def applyUpdate_def split: option.splits)

lemma mergeUpdates_Nil: "mergeUpdates us [] = []"
  unfolding mergeUpdates_foldl by (induction us) (simp_all add: applyOne_Nil)

lemma oid_mergeOrder: "oid (mergeOrder x u) = oid u"
  by (simp add: mergeOrder_def)

lemma oid_foldl_mergeOrder:
  "\<forall>u \<in> set us. oid u = i \<Longrightarrow> oid x = i \<Longrightarrow> oid (foldl mergeOrder x us) = i"
proof (induction us arbitrary: x)
  case Nil
  then show ?case by simp
next
  case (Cons u us)
  have "oid (foldl mergeOrder (mergeOrder x u) us) = i"
  proof (rule Cons.IH)
    show "\<forall>u\<in>set us. oid u = i" using Cons.prems by simp
    show "oid (mergeOrder x u) = i" using Cons.prems by (simp add: oid_mergeOrder)
  qed
  then show ?case by simp
qed

lemma props_foldl_mergeOrder:
  "props (foldl mergeOrder x us) = props x ++ foldl (\<lambda>m u. m ++ props u) Map.empty us"
proof (induction us rule: rev_induct)
  case Nil
  then show ?case by simp
next
  case (snoc u us)
  then show ?case by (simp add: mergeOrder_def)
qed

lemma map_add_twice: "(m ++ q) ++ q = m ++ (q :: 'a \<rightharpoonup> 'b)"
  by (rule ext) (simp add: map_add_def split: option.splits)

lemma foldl_mergeOrder_twice:
  assumes "\<forall>u \<in> set us. oid u = oid x"
  shows "foldl mergeOrder (foldl mergeOrder x us) us = foldl mergeOrder x us"
proof -
  have p: "props (foldl mergeOrder (foldl mergeOrder x us) us) = props (foldl mergeOrder x us)"
    by (simp add: props_foldl_mergeOrder map_add_twice)
  have i1: "oid (foldl mergeOrder x us) = oid x"
    using assms by (simp add: oid_foldl_mergeOrder)
  have i2: "oid (foldl mergeOrder (foldl mergeOrder x us) us) = oid x"
    using assms i1 by (simp add: oid_foldl_mergeOrder)
  show ?thesis
    by (rule order.equality) (simp_all add: p i1 i2)
qed

text \<open>
  The first order with a given identifier takes every fragment for that identifier, in the
  order they come; the orders behind it take the other fragments.
\<close>

lemma foldl_applyOne_Cons:
  "foldl (\<lambda>d u. applyOne u d) (x # xs) us =
     foldl mergeOrder x (filter (\<lambda>u. oid u = oid x) us)
       # foldl (\<lambda>d u. applyOne u d) xs (filter (\<lambda>u. oid u \<noteq> oid x) us)"
proof (induction us arbitrary: x xs)
  case Nil
  then show ?case by simp
next
  case (Cons u us)
  show ?case
  proof (cases "oid x = oid u")
    case True
    have step: "applyOne u (x # xs) = mergeOrder x u # xs"
      using True by (simp add: applyOne_Cons)
    have "oid (mergeOrder x u) = oid x"
      using True by (simp add: oid_mergeOrder)
    then show ?thesis
      using True Cons.IH [of "mergeOrder x u" xs] by (simp add: step)
  next
    case False
    have step: "applyOne u (x # xs) = x # applyOne u xs"
      using False by (simp add: applyOne_Cons)
    show ?thesis
      using False Cons.IH [of x "applyOne u xs"] by (simp add: step)
  qed
qed

lemma mergeUpdates_Cons:
  "mergeUpdates us (x # xs) =
     foldl mergeOrder x (filter (\<lambda>u. oid u = oid x) us)
       # mergeUpdates (filter (\<lambda>u. oid u \<noteq> oid x) us) xs"
  by (simp only: mergeUpdates_foldl foldl_applyOne_Cons)

lemma mergeUpdates_twice:
  "mergeUpdates updates (mergeUpdates updates data) = mergeUpdates updates data"
proof (induction data arbitrary: updates)
  case Nil
  then show ?case by (simp add: mergeUpdates_Nil)
next
  case (Cons x xs)
  let ?same = "filter (\<lambda>u. oid u = oid x) updates"
  let ?rest = "filter (\<lambda>u. oid u \<noteq> oid x) updates"
  let ?x' = "foldl mergeOrder x ?same"
  have same: "\<forall>u \<in> set ?same. oid u = oid x" by simp
  have id: "oid ?x' = oid x"
    using same by (simp add: oid_foldl_mergeOrder)
  have once: "mergeUpdates updates (x # xs) = ?x' # mergeUpdates ?rest xs"
    by (rule mergeUpdates_Cons)
  have "mergeUpdates updates (?x' # mergeUpdates ?rest xs) =
          foldl mergeOrder ?x' (filter (\<lambda>u. oid u = oid ?x') updates)
            # mergeUpdates (filter (\<lambda>u. oid u \<noteq> oid ?x') updates) (mergeUpdates ?rest xs)"
    by (rule mergeUpdates_Cons)
  also have "\<dots> = foldl mergeOrder ?x' ?same # mergeUpdates ?rest (mergeUpdates ?rest xs)"
    by (simp only: id)
  also have "\<dots> = ?x' # mergeUpdates ?rest xs"
    by (simp only: foldl_mergeOrder_twice [OF same] Cons.IH)
  finally show ?case by (simp only: once)
qed

lemma set_insertOrder: "set (insertOrder h x ys) = insert x (set ys)"
  by (induction ys) auto

lemma set_insertionSort: "set (insertionSort h xs) = set xs"
  unfolding insertionSort_def by (induction xs) (simp_all add: set_insertOrder)

lemma positions_set:
  assumes "sort p = [0..<n]"
  shows "set p = {0..<n}"
proof -
  have "set (sort p) = set p" by simp
  then show ?thesis using assms by simp
qed

lemma positions_distinct:
  assumes "sort p = [0..<n]"
  shows "distinct p"
proof -
  have "distinct (sort p) = distinct p" by simp
  then show ?thesis using assms by simp
qed

lemma set_positions:
  assumes "sort p = [0..<length xs]"
  shows "set (map (\<lambda>i. xs ! i) p) = set xs"
proof -
  have "set (map (\<lambda>i. xs ! i) p) = (\<lambda>i. xs ! i) ` {0..<length xs}"
    using positions_set [OF assms] by simp
  also have "\<dots> = set xs"
    by (simp add: set_conv_nth [of xs] image_def Bex_def conj_commute)
  finally show ?thesis .
qed

lemma set_sortOrders: "set (sortOrders h xs) = set xs"
proof (cases "consistentComparator h xs")
  case True
  then show ?thesis by (simp add: sortOrders_def set_insertionSort)
next
  case False
  let ?p = "Array_sort h (map (\<lambda>a. map (sortCompare h a) xs) xs)"
  show ?thesis
  proof (cases "sort ?p = [0..<length xs]")
    case True
    then show ?thesis
      using False set_positions [OF True] by (simp add: sortOrders_def Let_def)
  next
    case False
    then show ?thesis using \<open>\<not> consistentComparator h xs\<close> by (simp add: sortOrders_def Let_def)
  qed
qed

lemma pending_updateFilledOrdersTable:
  "pendingOrdersData (updateFilledOrdersTable h s) = pendingOrdersData s"
  by (simp add: updateFilledOrdersTable_def updateWeeklyEarningsSummary_def Let_def)

lemma pending_startAutoRefresh: "pendingOrdersData (startAutoRefresh s) = pendingOrdersData s"
  by (simp add: startAutoRefresh_def Let_def)

lemma pending_stopAutoRefresh: "pendingOrdersData (stopAutoRefresh s) = pendingOrdersData s"
  by (simp add: stopAutoRefresh_def split: option.splits)

lemma pending_showAlert: "pendingOrdersData (showAlert m l s) = pendingOrdersData s"
  by (simp add: showAlert_def)

lemma pending_send: "pendingOrdersData (send r s) = pendingOrdersData s"
  by (simp add: send_def)

lemma pending_loadFilledOrders:
  "pendingOrdersData (loadFilledOrders h settled s) = pendingOrdersData s"
  by (simp add: loadFilledOrders_def pending_updateFilledOrdersTable pending_showAlert pending_send
        Let_def split: outcome.splits option.splits)

lemma oid_mergedWith: "oid (mergedWith us x) = oid x"
  unfolding mergedWith_def by (rule oid_foldl_mergeOrder) simp_all

lemma map_oid_mergeUpdates: "map oid (mergeUpdates us xs) = map oid xs"
proof (induction xs arbitrary: us)
  case Nil
  then show ?case by (simp add: mergeUpdates_Nil)
next
  case (Cons x xs)
  have "oid (foldl mergeOrder x (filter (\<lambda>u. oid u = oid x) us)) = oid x"
    by (rule oid_foldl_mergeOrder) simp_all
  then show ?case by (simp add: mergeUpdates_Cons Cons.IH)
qed

lemma mergeUpdates_distinct:
  "distinct (map oid xs) \<Longrightarrow> mergeUpdates us xs = map (mergedWith us) xs"
proof (induction xs arbitrary: us)
  case Nil
  then show ?case by (simp add: mergeUpdates_Nil)
next
  case (Cons x xs)
  have other: "mergedWith (filter (\<lambda>u. oid u \<noteq> oid x) us) y = mergedWith us y" if "y \<in> set xs" for y
  proof -
    have "oid x \<notin> oid ` set xs" using Cons.prems by simp
    then have "oid y \<noteq> oid x" using that by (metis imageI)
    then have "filter (\<lambda>u. oid u = oid y) (filter (\<lambda>u. oid u \<noteq> oid x) us) = filter (\<lambda>u. oid u = oid y) us"
      by (auto intro: filter_cong)
    then show ?thesis by (simp add: mergedWith_def)
  qed
  have "mergeUpdates (filter (\<lambda>u. oid u \<noteq> oid x) us) xs = map (mergedWith (filter (\<lambda>u. oid u \<noteq> oid x) us)) xs"
    using Cons.prems by (simp add: Cons.IH)
  also have "\<dots> = map (mergedWith us) xs"
    using other by simp
  finally show ?case by (simp add: mergeUpdates_Cons mergedWith_def)
qed

text \<open>
  A consistent comparator is total: of two orders of the list, one is not after the other.
\<close>

lemma isZero_not_positive: "isZero v \<Longrightarrow> \<not> jsLess (Fin 0) v"
  by (cases v) (simp_all add: jsLess_def)

lemma notAfter_total:
  assumes "consistentComparator h xs" and "x \<in> set xs" and "y \<in> set xs"
    and "\<not> notAfter h x y"
  shows "notAfter h y x"
proof (rule ccontr)
  assume "\<not> notAfter h y x"
  then have "gtCF h y x" by (simp add: notAfter_def gtCF_def)
  moreover have "gtCF h x y" using assms(4) by (simp add: notAfter_def gtCF_def)
  moreover have "gtCF h x y \<and> gtCF h y x \<longrightarrow> gtCF h x x"
    using assms(1-3) unfolding consistentComparator_def by blast
  ultimately have "gtCF h x x" by simp
  moreover have "eqCF h x x"
    using assms(1,2) unfolding consistentComparator_def by blast
  ultimately show False by (simp add: gtCF_def eqCF_def isZero_not_positive)
qed

lemma consistentComparator_set:
  "set xs = set ys \<Longrightarrow> consistentComparator h xs = consistentComparator h ys"
  by (simp add: consistentComparator_def)

lemma adjacentSorted_tl: "adjacentSorted h (x # xs) \<Longrightarrow> adjacentSorted h xs"
  by (cases xs) simp_all

lemma adjacentSorted_insertOrder:
  assumes "consistentComparator h zs" and "x \<in> set zs"
  shows "set ys \<subseteq> set zs \<Longrightarrow> adjacentSorted h ys \<Longrightarrow> adjacentSorted h (insertOrder h x ys)"
proof (induction ys)
  case Nil
  then show ?case by simp
next
  case (Cons y ys)
  have total: "\<not> notAfter h x y \<Longrightarrow> notAfter h y x"
    using assms Cons.prems(1) notAfter_total [of h zs x y] by simp
  have rest: "adjacentSorted h (insertOrder h x ys)"
    using Cons adjacentSorted_tl [of h y ys] by simp
  show ?case
  proof (cases "notAfter h x y")
    case True
    then show ?thesis using Cons.prems(2) by simp
  next
    case False
    show ?thesis
    proof (cases ys)
      case Nil
      then show ?thesis using False total by simp
    next
      case (Cons z zs')
      then show ?thesis
        using False total rest Cons.prems(2) by (cases "notAfter h x z") simp_all
    qed
  qed
qed

lemma adjacentSorted_insertionSort:
  assumes "consistentComparator h zs"
  shows "set xs \<subseteq> set zs \<Longrightarrow> adjacentSorted h (insertionSort h xs)"
proof (induction xs)
  case Nil
  then show ?case by (simp add: insertionSort_def)
next
  case (Cons x xs)
  have sub: "set (insertionSort h xs) \<subseteq> set zs" using Cons.prems by (simp add: set_insertionSort)
  have "adjacentSorted h (insertOrder h x (insertionSort h xs))"
    using assms _ sub
  proof (rule adjacentSorted_insertOrder)
    show "x \<in> set zs" using Cons.prems by simp
    show "adjacentSorted h (insertionSort h xs)" using Cons by simp
  qed
  then show ?case by (simp add: insertionSort_def)
qed

lemma insertOrder_sorted: "adjacentSorted h (x # ys) \<Longrightarrow> insertOrder h x ys = x # ys"
  by (cases ys) simp_all

lemma insertionSort_sorted: "adjacentSorted h xs \<Longrightarrow> insertionSort h xs = xs"
proof (induction xs)
  case Nil
  then show ?case by (simp add: insertionSort_def)
next
  case (Cons x xs)
  have "insertionSort h xs = xs" using Cons adjacentSorted_tl by blast
  then have "insertionSort h (x # xs) = insertOrder h x xs" by (simp add: insertionSort_def)
  then show ?case using Cons.prems by (simp add: insertOrder_sorted)
qed

lemma sortOrders_consistent: "consistentComparator h xs \<Longrightarrow> sortOrders h xs = insertionSort h xs"
  by (simp add: sortOrders_def)

lemma sortOrders_twice:
  assumes "consistentComparator h xs"
  shows "sortOrders h (sortOrders h xs) = sortOrders h xs"
proof -
  have "consistentComparator h (insertionSort h xs)"
    using assms consistentComparator_set [OF set_insertionSort, of h h xs] by simp
  then have "sortOrders h (insertionSort h xs) = insertionSort h (insertionSort h xs)"
    by (rule sortOrders_consistent)
  also have "\<dots> = insertionSort h xs"
    by (rule insertionSort_sorted) (rule adjacentSorted_insertionSort [OF assms subset_refl])
  finally show ?thesis by (simp add: sortOrders_consistent [OF assms])
qed

lemma distinct_oid_insertOrder:
  "distinct (map oid (insertOrder h x ys)) = distinct (map oid (x # ys))"
  by (induction ys) (auto simp: set_insertOrder)

lemma distinct_oid_insertionSort: "distinct (map oid (insertionSort h xs)) = distinct (map oid xs)"
proof (induction xs)
  case Nil
  then show ?case by (simp add: insertionSort_def)
next
  case (Cons x xs)
  have "insertionSort h (x # xs) = insertOrder h x (insertionSort h xs)"
    by (simp add: insertionSort_def)
  then show ?case using Cons by (simp add: distinct_oid_insertOrder set_insertionSort)
qed

lemma distinct_oid_positions:
  assumes "sort p = [0..<length xs]" and "distinct (map oid xs)"
  shows "distinct (map oid (map (\<lambda>i. xs ! i) p))"
proof -
  have "inj_on (\<lambda>i. oid (xs ! i)) (set p)"
  proof (rule inj_onI)
    fix i j
    assume "i \<in> set p" and "j \<in> set p" and same: "oid (xs ! i) = oid (xs ! j)"
    then have i: "i < length xs" and j: "j < length xs"
      using positions_set [OF assms(1)] by simp_all
    have "(map oid xs ! i = map oid xs ! j) = (i = j)"
      using assms(2) i j by (intro nth_eq_iff_index_eq) simp_all
    then show "i = j" using same i j by simp
  qed
  then show ?thesis
    using positions_distinct [OF assms(1)] by (simp add: distinct_map comp_def)
qed

lemma distinct_oid_sortOrders:
  assumes "distinct (map oid xs)"
  shows "distinct (map oid (sortOrders h xs))"
proof (cases "consistentComparator h xs")
  case True
  then show ?thesis using assms by (simp add: sortOrders_def distinct_oid_insertionSort)
next
  case False
  let ?p = "Array_sort h (map (\<lambda>a. map (sortCompare h a) xs) xs)"
  show ?thesis
  proof (cases "sort ?p = [0..<length xs]")
    case True
    then show ?thesis
      using False distinct_oid_positions [OF True assms] by (simp add: sortOrders_def Let_def)
  next
    case False
    then show ?thesis
      using \<open>\<not> consistentComparator h xs\<close> assms by (simp add: sortOrders_def Let_def)
  qed
qed

lemma sortOrders_Nil_iff: "sortOrders h xs = [] \<longleftrightarrow> xs = []"
  using set_sortOrders [of h xs] by (metis set_empty)

lemma mergeUpdates_fixed_points:
  assumes "distinct (map oid xs)" and "mergeUpdates us xs = xs"
  shows "\<forall>x \<in> set xs. mergedWith us x = x"
proof -
  have "map (mergedWith us) xs = xs" using assms by (simp add: mergeUpdates_distinct)
  then have "map (mergedWith us) xs = map id xs" by simp
  then show ?thesis by (simp only: map_eq_conv) simp
qed

lemma mergeUpdates_sortOrders_fixed:
  assumes "distinct (map oid xs)" and "mergeUpdates us xs = xs"
  shows "mergeUpdates us (sortOrders h xs) = sortOrders h xs"
proof -
  have fixed: "\<forall>x \<in> set xs. mergedWith us x = x"
    using assms by (rule mergeUpdates_fixed_points)
  have "mergeUpdates us (sortOrders h xs) = map (mergedWith us) (sortOrders h xs)"
    using assms(1) by (simp add: mergeUpdates_distinct distinct_oid_sortOrders)
  also have "\<dots> = sortOrders h xs"
    by (rule map_idI) (simp add: fixed set_sortOrders)
  finally show ?thesis .
qed

lemma pending_table_updateFilledOrdersTable:
  "pending_table (updateFilledOrdersTable h s) = pending_table s"
  by (simp add: updateFilledOrdersTable_def updateWeeklyEarningsSummary_def Let_def)

lemma pending_table_loadFilledOrders:
  "pending_table (loadFilledOrders h settled s) = pending_table s"
  by (simp add: loadFilledOrders_def pending_table_updateFilledOrdersTable showAlert_def send_def
        Let_def split: outcome.splits option.splits)

lemma pending_table_stopAutoRefresh: "pending_table (stopAutoRefresh s) = pending_table s"
  by (simp add: stopAutoRefresh_def split: option.splits)

lemma pending_table_updatePendingOrdersTable:
  "pending_table (updatePendingOrdersTable h s) = pending_table s"
  by (simp add: updatePendingOrdersTable_def pending_table_updateFilledOrdersTable)

lemma pending_updatePendingOrdersTable:
  "pendingOrdersData (updatePendingOrdersTable h s) =
     (if pending_table s \<and> pendingOrdersData s \<noteq> [] then sortOrders h (pendingOrdersData s)
      else pendingOrdersData s)"
  by (simp add: updatePendingOrdersTable_def pending_updateFilledOrdersTable)

lemma pending_table_checkOrdersStatus:
  "pending_table (checkOrdersStatus h settled settledFilled s) = pending_table s"
  by (simp add: checkOrdersStatus_def pending_table_stopAutoRefresh pending_table_loadFilledOrders
        pending_table_updatePendingOrdersTable send_def Let_def split: outcome.splits)

lemma pending_checkOrdersStatus:
  "pendingOrdersData (checkOrdersStatus h settled settledFilled s)
     = pollStore (pending_table s) h settled (pendingOrdersData s)"
proof (cases "hasProcessingOrders (pendingOrdersData s)")
  case False
  then show ?thesis by (simp add: checkOrdersStatus_def pollStore_def pending_stopAutoRefresh)
next
  case transient: True
  show ?thesis
  proof (cases settled)
    case (Rejected message)
    then show ?thesis using transient by (simp add: checkOrdersStatus_def pollStore_def send_def)
  next
    case (Resolved result)
    show ?thesis
    proof (cases "success result \<and> updated_orders result \<noteq> []")
      case False
      then show ?thesis
        using transient Resolved by (auto simp add: checkOrdersStatus_def pollStore_def send_def)
    next
      case True
      let ?s1 = "updatePendingOrdersTable h
                   (send CheckOrderStatus s
                      \<lparr>pendingOrdersData := fst (applyUpdates (updated_orders result)
                                                   (pendingOrdersData (send CheckOrderStatus s)))\<rparr>)"
      have s1: "pendingOrdersData ?s1 =
                  (if pending_table s \<and> mergeUpdates (updated_orders result) (pendingOrdersData s) \<noteq> []
                   then sortOrders h (mergeUpdates (updated_orders result) (pendingOrdersData s))
                   else mergeUpdates (updated_orders result) (pendingOrdersData s))"
        by (simp add: pending_updatePendingOrdersTable mergeUpdates_def send_def)
      have "pendingOrdersData (checkOrdersStatus h settled settledFilled s) = pendingOrdersData ?s1"
        using transient Resolved True
        by (simp add: checkOrdersStatus_def Let_def pending_stopAutoRefresh pending_loadFilledOrders)
      then show ?thesis
        using transient Resolved True by (simp only: s1 pollStore_def) simp
    qed
  qed
qed

text \<open>
  A second status check with the same response merges nothing new into the store the first
  one left, and sorts it again.
\<close>

lemma pollStore_again:
  assumes "distinct (map oid data)"
  shows "pollStore table h settled (pollStore table h settled data) = pollStore table h settled data
         \<or> (\<exists>merged. pollStore table h settled data = sortOrders h merged
               \<and> pollStore table h settled (pollStore table h settled data)
                   = sortOrders h (sortOrders h merged))"
proof (cases "hasProcessingOrders data")
  case False
  then show ?thesis by (simp add: pollStore_def)
next
  case transient: True
  show ?thesis
  proof (cases settled)
    case (Rejected message)
    then show ?thesis by (simp add: pollStore_def)
  next
    case (Resolved result)
    let ?us = "updated_orders result"
    let ?M = "mergeUpdates ?us data"
    show ?thesis
    proof (cases "success result \<and> ?us \<noteq> []")
      case False
      then show ?thesis using Resolved by (auto simp add: pollStore_def)
    next
      case True
      have dM: "distinct (map oid ?M)" using assms by (simp add: map_oid_mergeUpdates)
      have fixM: "mergeUpdates ?us ?M = ?M" by (rule mergeUpdates_twice)
      show ?thesis
      proof (cases "table \<and> ?M \<noteq> []")
        case sorted: True
        have once: "pollStore table h settled data = sortOrders h ?M"
          using transient Resolved True sorted by (simp add: pollStore_def)
        have again: "mergeUpdates ?us (sortOrders h ?M) = sortOrders h ?M"
          using dM fixM by (rule mergeUpdates_sortOrders_fixed)
        have "pollStore table h settled (sortOrders h ?M) = sortOrders h ?M
              \<or> pollStore table h settled (sortOrders h ?M) = sortOrders h (sortOrders h ?M)"
          using Resolved True sorted
          by (simp add: pollStore_def again sortOrders_Nil_iff)
        then show ?thesis using once by auto
      next
        case plain: False
        have once: "pollStore table h settled data = ?M"
          using transient Resolved True plain by (auto simp add: pollStore_def)
        have "pollStore table h settled ?M = ?M"
          using Resolved True plain by (auto simp add: pollStore_def fixM)
        then show ?thesis by (simp add: once)
      qed
    qed
  qed
qed

lemma pollStore_twice:
  assumes "distinct (map oid data)" and "consistentComparator h (pollStore table h settled data)"
  shows "pollStore table h settled (pollStore table h settled data) = pollStore table h settled data"
proof -
  let ?P = "pollStore table h settled data"
  consider "pollStore table h settled ?P = ?P"
    | merged where "?P = sortOrders h merged"
        and "pollStore table h settled ?P = sortOrders h (sortOrders h merged)"
    using pollStore_again [OF assms(1), of table h settled] by blast
  then show ?thesis
  proof cases
    case 1
    then show ?thesis .
  next
    case 2
    have "consistentComparator h merged"
      using assms(2) consistentComparator_set [OF set_sortOrders, of h h merged] 2(1) by simp
    then have "sortOrders h (sortOrders h merged) = sortOrders h merged"
      by (rule sortOrders_twice)
    then show ?thesis using 2 by simp
  qed
qed

lemma pollStore_twice_set:
  assumes "distinct (map oid data)"
  shows "set (pollStore table h settled (pollStore table h settled data))
           = set (pollStore table h settled data)"
proof -
  let ?P = "pollStore table h settled data"
  consider "pollStore table h settled ?P = ?P"
    | merged where "?P = sortOrders h merged"
        and "pollStore table h settled ?P = sortOrders h (sortOrders h merged)"
    using pollStore_again [OF assms, of table h settled] by blast
  then show ?thesis
  proof cases
    case 1
    then show ?thesis by simp
  next
    case 2
    then show ?thesis by (simp add: set_sortOrders)
  qed
qed

lemma js_timestamps:
  "js 1715600000000 = Fin 1715600000000" "js 1715700000000 = Fin 1715700000000"
  by (simp_all add: js_def roundDouble_eval)

lemma compare_timestamps:
  "jsSub (Fin 1715600000000) (Fin 1715600000000) = Fin 0"
  "jsSub (Fin 1715700000000) (Fin 1715700000000) = Fin 0"
  "jsSub (Fin 1715700000000) (Fin 1715600000000) = Fin 100000000"
  "jsSub (Fin 1715600000000) (Fin 1715700000000) = Fin (- 100000000)"
  by (simp_all add: jsSub_def jsAdd_def signedZero_def roundDouble_eval)

text \<open>
  Claim C4. Merging the update fragments of a status check into the pending orders a second
  time changes nothing: for every store and every list of fragments (a single fragment
  included), the store after two rounds of the merge is the store after one. For the status
  check as a whole, which sorts the orders after the merge, on a store whose identifiers
  are distinct: a second status check that receives the same response leaves the pending
  orders as the first left them when the comparator is consistent on them, and in every
  case leaves the same orders (their order is then the host's).
\<close>

theorem poll_idempotent:
  "mergeUpdates updates (mergeUpdates updates data) = mergeUpdates updates data
   \<and> (distinct (map oid (pendingOrdersData s)) \<longrightarrow>
        consistentComparator h (pendingOrdersData (checkOrdersStatus h settled settledFilled' s)) \<longrightarrow>
        pendingOrdersData
          (checkOrdersStatus h settled settledFilled (checkOrdersStatus h settled settledFilled' s))
        = pendingOrdersData (checkOrdersStatus h settled settledFilled' s))
   \<and> (distinct (map oid (pendingOrdersData s)) \<longrightarrow>
        set (pendingOrdersData
               (checkOrdersStatus h settled settledFilled (checkOrdersStatus h settled settledFilled' s)))
        = set (pendingOrdersData (checkOrdersStatus h settled settledFilled' s)))"
  by (simp add: mergeUpdates_twice pending_checkOrdersStatus pending_table_checkOrdersStatus
        pollStore_twice pollStore_twice_set)

lemma orderDate_orderAt:
  "orderDate (orderAt i st (Fin t)) = (if t = 0 then None else Some (JNum (Fin t)))"
  by (simp add: orderDate_def orderAt_def getProp_def js_or_def)

lemma orderDate_mergeOrder_status:
  "orderDate (mergeOrder x (orderWithStatus j st)) = orderDate x"
  by (simp add: orderDate_def mergeOrder_def orderWithStatus_def getProp_def map_add_def)

lemma status_orderAt: "status (orderAt i st t) = Some (JStr st)"
  by (simp add: status_def orderAt_def getProp_def)

lemma compareOrders_numbers:
  "orderDate a = Some (JNum x) \<Longrightarrow> orderDate b = Some (JNum y) \<Longrightarrow> compareOrders h a b = jsSub y x"
  by (simp add: compareOrders_def)

text \<open>
  Order 1 (processing, created Monday) and order 2 (canceling, created Tuesday); the status
  check reports order 1 executed. The table then lists order 2 before order 1.
\<close>

lemma poll_example:
  "consistentComparator utcHost
     [mergeOrder (orderAt 1 ''processing'' (js 1715600000000)) (orderWithStatus 1 ''executed''),
      orderAt 2 ''canceling'' (js 1715700000000)]"
  "pendingOrdersData
     (checkOrdersStatus utcHost
        (Resolved \<lparr>success = True, updated_orders = [orderWithStatus 1 ''executed'']\<rparr>)
        settledFilled
        (initialPage\<lparr>pendingOrdersData :=
                       [orderAt 1 ''processing'' (js 1715600000000),
                        orderAt 2 ''canceling'' (js 1715700000000)]\<rparr>))
   = [orderAt 2 ''canceling'' (js 1715700000000),
      mergeOrder (orderAt 1 ''processing'' (js 1715600000000)) (orderWithStatus 1 ''executed'')]"
proof -
  let ?o1 = "orderAt 1 ''processing'' (js 1715600000000)"
  let ?o2 = "orderAt 2 ''canceling'' (js 1715700000000)"
  let ?u = "orderWithStatus 1 ''executed''"
  let ?m = "mergeOrder ?o1 ?u"
  have d1: "orderDate ?m = Some (JNum (Fin 1715600000000))"
    by (simp add: orderDate_mergeOrder_status js_timestamps orderDate_orderAt)
  have d2: "orderDate ?o2 = Some (JNum (Fin 1715700000000))"
    by (simp add: js_timestamps orderDate_orderAt)
  have c: "compareOrders utcHost ?m ?m = Fin 0" "compareOrders utcHost ?o2 ?o2 = Fin 0"
    "compareOrders utcHost ?m ?o2 = Fin 100000000"
    "compareOrders utcHost ?o2 ?m = Fin (- 100000000)"
    by (simp_all only: compareOrders_numbers [OF d1 d1] compareOrders_numbers [OF d2 d2]
          compareOrders_numbers [OF d1 d2] compareOrders_numbers [OF d2 d1] compare_timestamps)
  show consistent: "consistentComparator utcHost [?m, ?o2]"
    by (simp add: consistentComparator_def sortCompare_def c eqCF_def ltCF_def gtCF_def jsLess_def)
  have sorted: "sortOrders utcHost [?m, ?o2] = [?o2, ?m]"
    by (simp add: sortOrders_consistent [OF consistent] insertionSort_def notAfter_def
          sortCompare_def c jsLess_def)
  have merged: "mergeUpdates [?u] [?o1, ?o2] = [?m, ?o2]"
    by (simp add: mergeUpdates_foldl applyOne_Cons orderAt_def orderWithStatus_def)
  have transient: "hasProcessingOrders [?o1, ?o2]"
    by (simp add: hasProcessingOrders_def status_orderAt)
  show "pendingOrdersData
     (checkOrdersStatus utcHost
        (Resolved \<lparr>success = True, updated_orders = [?u]\<rparr>) settledFilled
        (initialPage\<lparr>pendingOrdersData := [?o1, ?o2]\<rparr>)) = [?o2, ?m]"
    by (simp add: pending_checkOrdersStatus pollStore_def transient merged sorted initialPage_def)
qed

text \<open>
  Order 1 is processing and order 2 canceling; the status check reports order 1 executed,
  twice. The store's comparator is consistent, and order 2, the newer one, comes first.
\<close>

theorem poll_idempotent_witness:
  "distinct (map oid [orderAt 1 ''processing'' (js 1715600000000),
                      orderAt 2 ''canceling'' (js 1715700000000)])
   \<and> consistentComparator utcHost
        (pendingOrdersData
           (checkOrdersStatus utcHost
              (Resolved \<lparr>success = True, updated_orders = [orderWithStatus 1 ''executed'']\<rparr>)
              (Rejected [])
              (initialPage\<lparr>pendingOrdersData :=
                             [orderAt 1 ''processing'' (js 1715600000000),
                              orderAt 2 ''canceling'' (js 1715700000000)]\<rparr>)))
   \<and> map status
        (pendingOrdersData
           (checkOrdersStatus utcHost
              (Resolved \<lparr>success = True, updated_orders = [orderWithStatus 1 ''executed'']\<rparr>)
              (Rejected [])
              (initialPage\<lparr>pendingOrdersData :=
                             [orderAt 1 ''processing'' (js 1715600000000),
                              orderAt 2 ''canceling'' (js 1715700000000)]\<rparr>)))
       = [Some (JStr ''canceling''), Some (JStr ''executed'')]
   \<and> mergeUpdates [orderWithStatus 1 ''executed'']
        (mergeUpdates [orderWithStatus 1 ''executed'']
           [orderAt 1 ''processing'' (js 1715600000000), orderAt 2 ''canceling'' (js 1715700000000)])
       = mergeUpdates [orderWithStatus 1 ''executed'']
           [orderAt 1 ''processing'' (js 1715600000000), orderAt 2 ''canceling'' (js 1715700000000)]
   \<and> pendingOrdersData
        (checkOrdersStatus utcHost
           (Resolved \<lparr>success = True, updated_orders = [orderWithStatus 1 ''executed'']\<rparr>)
           (Rejected [])
           (checkOrdersStatus utcHost
              (Resolved \<lparr>success = True, updated_orders = [orderWithStatus 1 ''executed'']\<rparr>)
              (Rejected [])
              (initialPage\<lparr>pendingOrdersData :=
                             [orderAt 1 ''processing'' (js 1715600000000),
                              orderAt 2 ''canceling'' (js 1715700000000)]\<rparr>)))
       = pendingOrdersData
           (checkOrdersStatus utcHost
              (Resolved \<lparr>success = True, updated_orders = [orderWithStatus 1 ''executed'']\<rparr>)
              (Rejected [])
              (initialPage\<lparr>pendingOrdersData :=
                             [orderAt 1 ''processing'' (js 1715600000000),
                              orderAt 2 ''canceling'' (js 1715700000000)]\<rparr>))"
proof -
  let ?data = "[orderAt 1 ''processing'' (js 1715600000000), orderAt 2 ''canceling'' (js 1715700000000)]"
  have ids: "distinct (map oid ?data)" by (simp add: orderAt_def)
  have ids': "distinct (map oid (pendingOrdersData (initialPage\<lparr>pendingOrdersData := ?data\<rparr>)))"
    by (simp add: orderAt_def)
  have statuses:
    "map status
       [orderAt 2 ''canceling'' (js 1715700000000),
        mergeOrder (orderAt 1 ''processing'' (js 1715600000000)) (orderWithStatus 1 ''executed'')]
     = [Some (JStr ''canceling''), Some (JStr ''executed'')]"
    by (simp add: status_def getProp_def orderAt_def orderWithStatus_def mergeOrder_def)
  have consistent:
    "consistentComparator utcHost
       [orderAt 2 ''canceling'' (js 1715700000000),
        mergeOrder (orderAt 1 ''processing'' (js 1715600000000)) (orderWithStatus 1 ''executed'')]"
    using poll_example(1) consistentComparator_set
      [of "[orderAt 2 ''canceling'' (js 1715700000000),
            mergeOrder (orderAt 1 ''processing'' (js 1715600000000)) (orderWithStatus 1 ''executed'')]"
          "[mergeOrder (orderAt 1 ''processing'' (js 1715600000000)) (orderWithStatus 1 ''executed''),
            orderAt 2 ''canceling'' (js 1715700000000)]" utcHost]
    by auto
  show ?thesis
    using poll_idempotent
      [where updates = "[orderWithStatus 1 ''executed'']" and data = ?data
         and s = "initialPage\<lparr>pendingOrdersData := ?data\<rparr>"
         and h = utcHost
         and settled = "Resolved \<lparr>success = True, updated_orders = [orderWithStatus 1 ''executed'']\<rparr>"
         and settledFilled = "Rejected []" and settledFilled' = "Rejected []"]
      ids ids' consistent statuses
    by (simp add: poll_example(2))
qed

text \<open>
  Without a consistent comparator the order of the table is the host's, and a second
  status check need not leave it as the first did. Orders 1 and 2 were created on Monday
  and Tuesday and order 3 carries no time, so it is equal to both, which differ; on a host
  whose sort then reverses the array, the second status check turns the table round again.
\<close>

lemma consistent_eq_trans:
  assumes "consistentComparator h xs" and "a \<in> set xs" and "b \<in> set xs" and "c \<in> set xs"
    and "eqCF h a b" and "eqCF h b c"
  shows "eqCF h a c"
proof -
  have "eqCF h a b \<and> eqCF h b c \<longrightarrow> eqCF h a c"
    using assms(1-4) unfolding consistentComparator_def by blast
  then show ?thesis using assms(5,6) by simp
qed

lemma poll_order_of_the_host:
  "\<not> consistentComparator utcHost
        [mergeOrder (orderAt 1 ''processing'' (js 1715600000000)) (orderWithStatus 1 ''executed''),
         orderAt 2 ''canceling'' (js 1715700000000), orderWithStatus 3 ''pending'']"
  "map oid
     (pendingOrdersData
        (checkOrdersStatus utcHost
           (Resolved \<lparr>success = True, updated_orders = [orderWithStatus 1 ''executed'']\<rparr>)
           (Rejected [])
           (initialPage\<lparr>pendingOrdersData :=
                          [orderAt 1 ''processing'' (js 1715600000000),
                           orderAt 2 ''canceling'' (js 1715700000000),
                           orderWithStatus 3 ''pending'']\<rparr>)))
     = [3, 2, 1]"
  "map oid
     (pendingOrdersData
        (checkOrdersStatus utcHost
           (Resolved \<lparr>success = True, updated_orders = [orderWithStatus 1 ''executed'']\<rparr>)
           (Rejected [])
           (checkOrdersStatus utcHost
              (Resolved \<lparr>success = True, updated_orders = [orderWithStatus 1 ''executed'']\<rparr>)
              (Rejected [])
              (initialPage\<lparr>pendingOrdersData :=
                             [orderAt 1 ''processing'' (js 1715600000000),
                              orderAt 2 ''canceling'' (js 1715700000000),
                              orderWithStatus 3 ''pending'']\<rparr>))))
     = [1, 2, 3]"
proof -
  let ?o1 = "orderAt 1 ''processing'' (js 1715600000000)"
  let ?o2 = "orderAt 2 ''canceling'' (js 1715700000000)"
  let ?o3 = "orderWithStatus 3 ''pending''"
  let ?u = "orderWithStatus 1 ''executed''"
  let ?m = "mergeOrder ?o1 ?u"
  let ?settled = "Resolved \<lparr>success = True, updated_orders = [?u]\<rparr>"
  have d1: "orderDate ?m = Some (JNum (Fin 1715600000000))"
    by (simp add: orderDate_mergeOrder_status js_timestamps orderDate_orderAt)
  have d2: "orderDate ?o2 = Some (JNum (Fin 1715700000000))"
    by (simp add: js_timestamps orderDate_orderAt)
  have d3: "orderDate ?o3 = None"
    by (simp add: orderDate_def orderWithStatus_def getProp_def js_or_def)
  have differ: "sortCompare utcHost ?m ?o2 = Fin 100000000"
    by (simp add: sortCompare_def compareOrders_numbers [OF d1 d2] compare_timestamps)
  have equal: "sortCompare utcHost ?m ?o3 = Fin 0" "sortCompare utcHost ?o3 ?o2 = Fin 0"
    by (simp_all add: sortCompare_def compareOrders_def d1 d2 d3 dateNumber_def jsSub_def jsAdd_def)
  show inconsistent: "\<not> consistentComparator utcHost [?m, ?o2, ?o3]"
  proof
    assume "consistentComparator utcHost [?m, ?o2, ?o3]"
    then have "eqCF utcHost ?m ?o2"
    proof (rule consistent_eq_trans)
      show "eqCF utcHost ?m ?o3" "eqCF utcHost ?o3 ?o2" by (simp_all add: eqCF_def equal)
    qed simp_all
    then show False by (simp add: eqCF_def differ)
  qed
  have "set [?o3, ?o2, ?m] = set [?m, ?o2, ?o3]" by auto
  then have "consistentComparator utcHost [?o3, ?o2, ?m] = consistentComparator utcHost [?m, ?o2, ?o3]"
    by (rule consistentComparator_set)
  then have inconsistent': "\<not> consistentComparator utcHost [?o3, ?o2, ?m]"
    using inconsistent by (simp only:) simp
  have positions: "rev [0..<3] = [2, 1, 0::nat]" "sort [2, 1, 0::nat] = [0..<3]"
    by (simp_all add: numeral_3_eq_3)
  have reversed: "sortOrders utcHost [a, b, c] = [c, b, a]"
    if "\<not> consistentComparator utcHost [a, b, c]" for a b c
    using that by (simp add: sortOrders_def utcHost_def Let_def positions)
  have merged: "mergeUpdates [?u] [?o1, ?o2, ?o3] = [?m, ?o2, ?o3]"
    by (simp add: mergeUpdates_foldl applyOne_Cons orderAt_def orderWithStatus_def)
  have ids: "oid ?o3 = 3" "oid ?o2 = 2" "oid ?m = 1" "oid ?u = 1"
    by (simp_all add: orderWithStatus_def orderAt_def mergeOrder_def)
  have again: "mergeOrder ?m ?u = ?m"
    by (simp add: mergeOrder_def map_add_twice)
  have fixed: "mergeUpdates [?u] [?o3, ?o2, ?m] = [?o3, ?o2, ?m]"
    by (simp add: mergeUpdates_foldl applyOne_Cons ids again)
  have transient: "hasProcessingOrders [?o1, ?o2, ?o3]" "hasProcessingOrders [?o3, ?o2, ?m]"
    by (simp_all add: hasProcessingOrders_def orderWithStatus_def orderAt_def status_def getProp_def)
  have once: "pollStore True utcHost ?settled [?o1, ?o2, ?o3] = [?o3, ?o2, ?m]"
    by (simp add: pollStore_def transient merged reversed [OF inconsistent])
  have twice: "pollStore True utcHost ?settled [?o3, ?o2, ?m] = [?m, ?o2, ?o3]"
    by (simp add: pollStore_def transient fixed reversed [OF inconsistent'])
  have table: "pending_table (initialPage\<lparr>pendingOrdersData := [?o1, ?o2, ?o3]\<rparr>)"
    by (simp add: initialPage_def)
  have first:
    "pendingOrdersData
       (checkOrdersStatus utcHost ?settled (Rejected [])
          (initialPage\<lparr>pendingOrdersData := [?o1, ?o2, ?o3]\<rparr>)) = [?o3, ?o2, ?m]"
    by (simp only: pending_checkOrdersStatus table) (simp add: once)
  show "map oid
     (pendingOrdersData
        (checkOrdersStatus utcHost ?settled (Rejected [])
           (initialPage\<lparr>pendingOrdersData := [?o1, ?o2, ?o3]\<rparr>))) = [3, 2, 1]"
    by (simp only: first) (simp add: ids)
  have "pendingOrdersData
     (checkOrdersStatus utcHost ?settled (Rejected [])
        (checkOrdersStatus utcHost ?settled (Rejected [])
           (initialPage\<lparr>pendingOrdersData := [?o1, ?o2, ?o3]\<rparr>))) = [?m, ?o2, ?o3]"
    by (simp only: pending_checkOrdersStatus [where settledFilled = "Rejected []"]
          pending_table_checkOrdersStatus table) (simp add: once twice)
  then show "map oid
     (pendingOrdersData
        (checkOrdersStatus utcHost ?settled (Rejected [])
           (checkOrdersStatus utcHost ?settled (Rejected [])
              (initialPage\<lparr>pendingOrdersData := [?o1, ?o2, ?o3]\<rparr>)))) = [1, 2, 3]"
    by (simp only:) (simp add: ids)
qed

section \<open>The weekly earnings summary\<close>

lemma week_utcHost:
  "firstDayOfWeek utcHost = Some 1715472000000" "lastDayOfWeek utcHost = Some 1716076799999"
  by (simp_all add: lastDayOfWeek_def firstDayOfWeek_def setDate_def setHours_def getDay_def
        WeekDay_def Day_def TimeWithinDay_def LocalTime_def UTC_def timeClipInt_def utcHost_def
        msPerDay_def Let_def)

lemma within_week_utcHost:
  "isWithinCurrentWeek utcHost (Some (JNum (js 1715600000000)))"
  "isWithinCurrentWeek utcHost (Some (JNum (js 1715700000000)))"
  by (simp_all add: isWithinCurrentWeek_def week_utcHost js_timestamps truncate_rat_def)

text \<open>
  The week in which summer time begins: on Wednesday 13 March 2024 in New York the week
  began on Sunday 10 March at 0:00 local time, five hours behind UTC, although now is four
  hours behind; an order created half an hour before that is not of this week.
\<close>

lemma week_newYorkHost:
  "firstDayOfWeek newYorkHost = Some 1710046800000"
  "lastDayOfWeek newYorkHost = Some 1710647999999"
  "\<not> isWithinCurrentWeek newYorkHost (Some (JNum (Fin 1710045000000)))"
  "isWithinCurrentWeek newYorkHost (Some (JNum (Fin 1710046800000)))"
proof -
  have now: "clock_now newYorkHost = 1710331200000"
    by (simp add: newYorkHost_def)
  have summer: "LocalTZA newYorkHost 1710331200000 True = - 14400000"
    "LocalTZA newYorkHost 1710057600000 False = - 14400000"
    "LocalTZA newYorkHost 1710072000000 True = - 14400000"
    "LocalTZA newYorkHost 1710547200000 False = - 14400000"
    "LocalTZA newYorkHost 1710561600000 True = - 14400000"
    "LocalTZA newYorkHost 1710633599999 False = - 14400000"
    and winter: "LocalTZA newYorkHost 1710028800000 False = - 18000000"
    "LocalTZA newYorkHost 1710046800000 True = - 18000000"
    by (simp_all add: newYorkHost_def)
  have weekday: "getDay newYorkHost 1710331200000 = 3"
    by (simp add: getDay_def WeekDay_def Day_def LocalTime_def summer msPerDay_def)
  have sunday: "setDate newYorkHost (- 3) 1710331200000 = Some 1710072000000"
    by (simp add: setDate_def LocalTime_def summer Day_def TimeWithinDay_def msPerDay_def)
       (simp add: UTC_def summer timeClipInt_def)
  have midnight: "setHours newYorkHost 0 0 0 0 1710072000000 = Some 1710046800000"
    by (simp add: setHours_def LocalTime_def summer Day_def msPerDay_def)
       (simp add: UTC_def winter timeClipInt_def)
  show first: "firstDayOfWeek newYorkHost = Some 1710046800000"
    by (simp add: firstDayOfWeek_def now weekday sunday midnight)
  have saturday: "setDate newYorkHost 6 1710046800000 = Some 1710561600000"
    by (simp add: setDate_def LocalTime_def winter Day_def TimeWithinDay_def msPerDay_def)
       (simp add: UTC_def summer timeClipInt_def)
  have evening: "setHours newYorkHost 23 59 59 999 1710561600000 = Some 1710647999999"
    by (simp add: setHours_def LocalTime_def summer Day_def msPerDay_def)
       (simp add: UTC_def summer timeClipInt_def)
  show last: "lastDayOfWeek newYorkHost = Some 1710647999999"
    by (simp add: lastDayOfWeek_def first saturday evening)
  show "\<not> isWithinCurrentWeek newYorkHost (Some (JNum (Fin 1710045000000)))"
    "isWithinCurrentWeek newYorkHost (Some (JNum (Fin 1710046800000)))"
    by (simp_all add: isWithinCurrentWeek_def first last truncate_rat_def)
qed

lemma truthy_number: "truthy (Some (JNum n)) = (n \<noteq> NaN \<and> \<not> isZero n)"
  by simp

lemma netPremium_filledOrder:
  "netPremium h (filledOrder i p q c t) =
     jsSub (jsMul (jsMul (if truthy (Some (JNum p)) then p else Fin 0) (Fin 100))
                  (if truthy (Some (JNum q)) then q else Fin 1))
           (if truthy (Some (JNum c)) then c else Fin 0)"
  by (simp add: netPremium_def filledOrder_def getProp_def js_or_def)

lemma orderDate_filledOrder:
  "orderDate (filledOrder i p q c t) = (if truthy (Some (JNum t)) then Some (JNum t) else None)"
  by (simp add: orderDate_def filledOrder_def getProp_def js_or_def)

lemma status_filledOrder: "status (filledOrder i p q c t) = Some (JStr ''executed'')"
  by (simp add: status_def filledOrder_def getProp_def)

lemma fill_price_filledOrder:
  "truthy (getProp (filledOrder i p q c t) ''avg_fill_price'') = truthy (Some (JNum p))"
  by (simp add: filledOrder_def getProp_def)

lemma week_filledOrder:
  "isWithinCurrentWeek h (orderDate (filledOrder i p q c t)) = isWithinCurrentWeek h (Some (JNum t))"
  by (simp add: orderDate_filledOrder isWithinCurrentWeek_def)

text \<open>The doubles that the numerals of the example denote.\<close>

lemma js_figures:
  "js 2.50 = Fin (5 / 2)"
  "js 1.10 = Fin (2476979795053773 / 2251799813685248)"
  "js 0.65 = Fin (5854679515581645 / 9007199254740992)"
  "js 1 = Fin 1"
  "js 2 = Fin 2"
  "js 249.35 = Fin (8773223180350259 / 35184372088832)"
  "js 219.35000000000002 = Fin (1929423004421325 / 8796093022208)"
  "js 468.70000000000005 = Fin (2061364399754445 / 4398046511104)"
  "js 234.35000000000002 = Fin (2061364399754445 / 8796093022208)"
  by (simp_all add: js_def roundDouble_eval)

lemma premium_arithmetic:
  "jsMul (Fin (5 / 2)) (Fin 100) = Fin 250"
  "jsMul (Fin 250) (Fin 1) = Fin 250"
  "jsSub (Fin 250) (Fin (5854679515581645 / 9007199254740992))
     = Fin (8773223180350259 / 35184372088832)"
  "jsMul (Fin (2476979795053773 / 2251799813685248)) (Fin 100)
     = Fin (7740561859543041 / 70368744177664)"
  "jsMul (Fin (7740561859543041 / 70368744177664)) (Fin 2)
     = Fin (7740561859543041 / 35184372088832)"
  "jsSub (Fin (7740561859543041 / 35184372088832)) (Fin (5854679515581645 / 9007199254740992))
     = Fin (1929423004421325 / 8796093022208)"
  "jsAdd (Fin 0) (Fin (8773223180350259 / 35184372088832))
     = Fin (8773223180350259 / 35184372088832)"
  "jsAdd (Fin (8773223180350259 / 35184372088832)) (Fin (1929423004421325 / 8796093022208))
     = Fin (2061364399754445 / 4398046511104)"
  "jsDiv (Fin (2061364399754445 / 4398046511104)) (Fin 2)
     = Fin (2061364399754445 / 8796093022208)"
  by (simp_all add: jsMul_def jsSub_def jsAdd_def jsDiv_def roundDouble_eval)

lemma weekly_example:
  assumes "filled_table s"
    and "isWithinCurrentWeek h (Some (JNum t1))" and "isWithinCurrentWeek h (Some (JNum t2))"
  shows "weekly (loadFilledOrders h
                   (Resolved (Some [filledOrder i (js 2.50) (js 1) (js 0.65) t1,
                                    filledOrder j (js 1.10) (js 2) (js 0.65) t2])) s)
           = \<lparr>orderCount = 2, totalEarnings = Fin (2061364399754445 / 4398046511104),
              averagePremium = Fin (2061364399754445 / 8796093022208)\<rparr>"
    and "filledOrdersData (loadFilledOrders h
                   (Resolved (Some [filledOrder i (js 2.50) (js 1) (js 0.65) t1,
                                    filledOrder j (js 1.10) (js 2) (js 0.65) t2])) s)
           = [filledOrder i (js 2.50) (js 1) (js 0.65) t1, filledOrder j (js 1.10) (js 2) (js 0.65) t2]"
  using assms unfolding js_figures
  by (simp_all add: loadFilledOrders_def send_def updateFilledOrdersTable_def Let_def
        status_filledOrder fill_price_filledOrder week_filledOrder netPremium_filledOrder
        updateWeeklyEarningsSummary_def premium_arithmetic)

text \<open>
  Claim C1, as the code has it. For two executed orders of the current week with fill
  price 2.50, quantity 1, commission 0.65 and fill price 1.10, quantity 2, commission 0.65,
  loaded into a page that has the filled-orders table, the net premiums
  \<open>fillPrice * 100 * quantity - commission\<close> are the numbers 249.35 and
  219.35000000000002, and the summary shows count 2, total earnings 468.70000000000005 and
  average premium 234.35000000000002. The last three are not the numbers 219.35, 468.70
  and 234.35: the products and the sum are rounded to doubles.
\<close>

theorem weekly_two_orders:
  assumes "filled_table s"
    and "isWithinCurrentWeek h (Some (JNum t1))" and "isWithinCurrentWeek h (Some (JNum t2))"
  shows "netPremium h (filledOrder i (js 2.50) (js 1) (js 0.65) t1) = js 249.35
       \<and> netPremium h (filledOrder j (js 1.10) (js 2) (js 0.65) t2) = js 219.35000000000002
       \<and> weekly (loadFilledOrders h
                   (Resolved (Some [filledOrder i (js 2.50) (js 1) (js 0.65) t1,
                                    filledOrder j (js 1.10) (js 2) (js 0.65) t2])) s)
           = \<lparr>orderCount = 2, totalEarnings = js 468.70000000000005,
              averagePremium = js 234.35000000000002\<rparr>
       \<and> js 219.35000000000002 \<noteq> js 219.35
       \<and> js 468.70000000000005 \<noteq> js 468.70
       \<and> js 234.35000000000002 \<noteq> js 234.35"
proof -
  have first: "netPremium h (filledOrder i (js 2.50) (js 1) (js 0.65) t1) = js 249.35"
    unfolding js_figures by (simp add: netPremium_filledOrder premium_arithmetic)
  have second: "netPremium h (filledOrder j (js 1.10) (js 2) (js 0.65) t2) = js 219.35000000000002"
    unfolding js_figures by (simp add: netPremium_filledOrder premium_arithmetic)
  have summary:
    "weekly (loadFilledOrders h
               (Resolved (Some [filledOrder i (js 2.50) (js 1) (js 0.65) t1,
                                filledOrder j (js 1.10) (js 2) (js 0.65) t2])) s)
       = \<lparr>orderCount = 2, totalEarnings = js 468.70000000000005,
          averagePremium = js 234.35000000000002\<rparr>"
    unfolding js_figures(8,9) using assms by (rule weekly_example(1))
  have differ: "js 219.35000000000002 \<noteq> js 219.35" "js 468.70000000000005 \<noteq> js 468.70"
    "js 234.35000000000002 \<noteq> js 234.35"
    by (simp_all add: js_def roundDouble_eval)
  show ?thesis using first second summary differ by simp
qed

text \<open>The two orders of the example, loaded on Wednesday 15 May 2024 into the fresh page.\<close>

theorem weekly_two_orders_witness:
  "filled_table initialPage
   \<and> isWithinCurrentWeek utcHost (Some (JNum (js 1715600000000)))
   \<and> isWithinCurrentWeek utcHost (Some (JNum (js 1715700000000)))
   \<and> netPremium utcHost (twoFilledOrders ! 0) = js 249.35
   \<and> netPremium utcHost (twoFilledOrders ! 1) = js 219.35000000000002
   \<and> weekly (loadFilledOrders utcHost (Resolved (Some twoFilledOrders)) initialPage)
       = \<lparr>orderCount = 2, totalEarnings = js 468.70000000000005,
          averagePremium = js 234.35000000000002\<rparr>"
  using weekly_two_orders
    [of initialPage utcHost "js 1715600000000" "js 1715700000000" 1 2]
    within_week_utcHost
  by (simp add: initialPage_def twoFilledOrders_def)

text \<open>
  The figures claim C1 states do not come out: the first net premium is not 184.35, the
  total is not 403.70 and the average is not 201.85.
\<close>

theorem weekly_figures_counterexample:
  "netPremium utcHost (twoFilledOrders ! 0) \<noteq> js 184.35
   \<and> totalEarnings (weekly (loadFilledOrders utcHost (Resolved (Some twoFilledOrders)) initialPage))
       \<noteq> js 403.70
   \<and> averagePremium (weekly (loadFilledOrders utcHost (Resolved (Some twoFilledOrders)) initialPage))
       \<noteq> js 201.85"
proof -
  have loaded:
    "weekly (loadFilledOrders utcHost (Resolved (Some twoFilledOrders)) initialPage)
       = \<lparr>orderCount = 2, totalEarnings = Fin (2061364399754445 / 4398046511104),
          averagePremium = Fin (2061364399754445 / 8796093022208)\<rparr>"
    unfolding twoFilledOrders_def
    by (rule weekly_example(1)) (simp_all add: initialPage_def within_week_utcHost)
  have first: "netPremium utcHost (twoFilledOrders ! 0) = Fin (8773223180350259 / 35184372088832)"
    unfolding twoFilledOrders_def js_figures
    by (simp add: netPremium_filledOrder premium_arithmetic)
  have "Fin (8773223180350259 / 35184372088832) \<noteq> js 184.35"
    "Fin (2061364399754445 / 4398046511104) \<noteq> js 403.70"
    "Fin (2061364399754445 / 8796093022208) \<noteq> js 201.85"
    by (simp_all add: js_def roundDouble_eval)
  then show ?thesis by (simp add: loaded first)
qed

lemma loadFilledOrders_empty:
  "filledOrdersData (loadFilledOrders h (Resolved (Some [])) s) = []"
  "weekly (loadFilledOrders h (Resolved (Some [])) s) = weekly s"
  by (simp_all add: loadFilledOrders_def send_def updateFilledOrdersTable_def Let_def)

text \<open>
  Claim C3 says that a reload which produces no filled order leaves the summary at count 0,
  total 0 and average 0. The code returns from \<^verbatim>\<open>updateFilledOrdersTable\<close> at the test for
  an empty collection, before the summary is written: after the two orders of the example
  have been loaded, a reload that yields no order empties the collection and the summary
  still shows count 2, total 468.70000000000005 and average 234.35000000000002.
\<close>

theorem empty_reload_keeps_summary:
  "filledOrdersData
     (loadFilledOrders utcHost (Resolved (Some []))
        (loadFilledOrders utcHost (Resolved (Some twoFilledOrders)) initialPage)) = []
   \<and> weekly
       (loadFilledOrders utcHost (Resolved (Some []))
          (loadFilledOrders utcHost (Resolved (Some twoFilledOrders)) initialPage))
       = \<lparr>orderCount = 2, totalEarnings = js 468.70000000000005,
          averagePremium = js 234.35000000000002\<rparr>"
proof -
  have loaded:
    "weekly (loadFilledOrders utcHost (Resolved (Some twoFilledOrders)) initialPage)
       = \<lparr>orderCount = 2, totalEarnings = js 468.70000000000005,
          averagePremium = js 234.35000000000002\<rparr>"
    unfolding twoFilledOrders_def js_figures(8,9)
    by (rule weekly_example(1)) (simp_all add: initialPage_def within_week_utcHost)
  show ?thesis
    by (simp only: loadFilledOrders_empty loaded)
qed

section \<open>Numerals read back\<close>

lemma digit_char_decimal: "d < 10 \<Longrightarrow> isDecimal (digit_char d)"
proof -
  assume "d < 10"
  then have "d \<in> {0, 1, 2, 3, 4, 5, 6, 7, 8, 9}" by auto
  then show ?thesis by (auto simp: isDecimal_def digit_char_def)
qed

lemma digitValue_digit_char: "d < 10 \<Longrightarrow> digitValue (digit_char d) = Some d"
proof -
  assume "d < 10"
  then have "d \<in> {0, 1, 2, 3, 4, 5, 6, 7, 8, 9}" by auto
  then show ?thesis by (auto simp: digitValue_def digit_char_def)
qed

lemma whitePrefix_first:
  assumes "c \<notin> set (map hd whiteSpace)"
  shows "whitePrefix (c # cs) = 0"
proof -
  have "find (\<lambda>w. take (length w) (c # cs) = w) whiteSpace = None"
    using assms by (auto simp: find_None_iff whiteSpace_def)
  then show ?thesis by (simp add: whitePrefix_def)
qed

lemma trimStart_first: "c \<notin> set (map hd whiteSpace) \<Longrightarrow> trimStart (c # cs) = c # cs"
  by (subst trimStart.simps) (simp add: whitePrefix_first)

lemma decimal_props:
  assumes "isDecimal c"
  shows "c \<notin> set (map hd whiteSpace)" "c \<noteq> CHR ''-''" "c \<noteq> CHR ''+''" "c \<noteq> CHR ''x''" "c \<noteq> CHR ''X''"
    "isRadixDigit 10 c" "(of_char c :: nat) < 128"
  using assms by (auto simp: isDecimal_def whiteSpace_def isRadixDigit_def digitValue_def)

lemma show_nat_decimal: "\<forall>c \<in> set (show_nat n). isDecimal c"
proof (induction n rule: show_nat.induct)
  case (1 n)
  show ?case
  proof (cases "n < 10")
    case True
    then show ?thesis by (simp add: show_nat.simps [of n] digit_char_decimal)
  next
    case False
    then show ?thesis using 1 by (simp add: show_nat.simps [of n] digit_char_decimal)
  qed
qed

lemma show_nat_not_Nil: "show_nat n \<noteq> []"
  by (simp add: show_nat.simps [of n])

lemma mathInt_snoc:
  "mathInt R (z @ [c]) = mathInt R z * R + (case digitValue c of None \<Rightarrow> 0 | Some d \<Rightarrow> d)"
  by (simp add: mathInt_def)

lemma mathInt_show_nat: "mathInt 10 (show_nat n) = n"
proof (induction n rule: show_nat.induct)
  case (1 n)
  show ?case
  proof (cases "n < 10")
    case True
    then show ?thesis by (simp add: show_nat.simps [of n] mathInt_def digitValue_digit_char)
  next
    case False
    then have "mathInt 10 (show_nat (n div 10)) = n div 10" using 1 by simp
    then show ?thesis
      using False by (simp add: show_nat.simps [of n] mathInt_snoc digitValue_digit_char)
  qed
qed

lemma length_show_nat: "0 < k \<Longrightarrow> n < 10 ^ k \<Longrightarrow> length (show_nat n) \<le> k"
proof (induction n arbitrary: k rule: show_nat.induct)
  case (1 n)
  show ?case
  proof (cases "n < 10")
    case True
    then show ?thesis using "1.prems" by (simp add: show_nat.simps [of n])
  next
    case False
    then obtain j where k: "k = Suc j" and j: "0 < j"
      using "1.prems" by (cases k; cases "k - 1") auto
    have "n div 10 < 10 ^ j" using "1.prems" k by (simp add: less_mult_imp_div_less)
    then have "length (show_nat (n div 10)) \<le> j" using "1.IH" [OF False j] by simp
    then show ?thesis using False k by (simp add: show_nat.simps [of n])
  qed
qed

lemma parseInt_decimal:
  assumes "z \<noteq> []" and "\<forall>c \<in> set z. isDecimal c" and "radix = 0 \<or> radix = 10"
  shows "parseInt z radix = roundDouble (of_nat (mathInt 10 z))"
    and "parseInt (CHR ''-'' # z) radix =
           (if mathInt 10 z = 0 then NegZero else roundDouble (- of_nat (mathInt 10 z)))"
proof -
  obtain c cs where z: "z = c # cs" using assms(1) by (cases z) auto
  have c: "isDecimal c" using assms(2) z by simp
  have all: "takeWhile (isRadixDigit 10) z = z"
    using assms(2) by (simp add: takeWhile_eq_all_conv decimal_props)
  have nohex: "take 2 z \<noteq> ''0x''" "take 2 z \<noteq> ''0X''"
    using assms(2) z by (cases cs; auto dest: decimal_props)+
  have white: "trimStart z = z"
    using decimal_props(1) [OF c] by (simp add: z trimStart_first)
  have sign: "take (Suc 0) z \<noteq> ''-''" "take (Suc 0) z \<noteq> ''+''"
    using decimal_props(2,3) [OF c] by (simp_all add: z)
  have minus: "trimStart (CHR ''-'' # z) = CHR ''-'' # z"
    by (rule trimStart_first) (simp add: whiteSpace_def)
  show "parseInt z radix = roundDouble (of_nat (mathInt 10 z))"
  proof (cases "radix = 0")
    case True
    then show ?thesis
      by (simp add: parseInt_def Let_def white sign nohex all assms(1))
  next
    case False
    then have "radix = 10" using assms(3) by simp
    then show ?thesis
      by (simp add: parseInt_def Let_def white sign all assms(1))
  qed
  show "parseInt (CHR ''-'' # z) radix =
          (if mathInt 10 z = 0 then NegZero else roundDouble (- of_nat (mathInt 10 z)))"
  proof (cases "radix = 0")
    case True
    then show ?thesis
      by (simp add: parseInt_def Let_def minus nohex all assms(1))
  next
    case False
    then have "radix = 10" using assms(3) by simp
    then show ?thesis
      by (simp add: parseInt_def Let_def minus all assms(1))
  qed
qed

lemma parseInt_show_int:
  assumes "radix = 0 \<or> radix = 10" and "\<bar>n\<bar> < 2 ^ 53"
  shows "parseInt (show_int n) radix = Fin (of_int n)"
proof (cases "n < 0")
  case True
  have "parseInt (show_int n) radix = roundDouble (- of_nat (nat (- n)))"
    using True assms(1)
    by (simp add: show_int_def parseInt_decimal show_nat_not_Nil show_nat_decimal mathInt_show_nat)
  also have "\<dots> = roundDouble (of_int n)" using True by simp
  finally show ?thesis using assms(2) by (simp only: roundDouble_int)
next
  case False
  have "parseInt (show_int n) radix = roundDouble (of_nat (nat n))"
    using False assms(1)
    by (simp add: show_int_def parseInt_decimal show_nat_not_Nil show_nat_decimal mathInt_show_nat)
  also have "\<dots> = roundDouble (of_int n)" using False by simp
  finally show ?thesis using assms(2) by (simp only: roundDouble_int)
qed

lemma numToString_int: "\<bar>k\<bar> < 10 ^ 21 \<Longrightarrow> numToString h (Fin (of_int k)) = show_int k"
proof -
  assume "\<bar>k\<bar> < 10 ^ 21"
  then have "\<bar>of_int k :: rat\<bar> < of_int (10 ^ 21)"
    by (simp only: of_int_abs [symmetric] of_int_less_iff)
  then show ?thesis by simp
qed

lemma long_numeral: "0 \<le> k \<Longrightarrow> 10 < length (show_int k) \<Longrightarrow> 10 ^ 10 \<le> k"
proof (rule ccontr)
  assume k: "0 \<le> k" and len: "10 < length (show_int k)" and "\<not> 10 ^ 10 \<le> k"
  then have "nat k < 10 ^ 10" by simp
  then have "length (show_nat (nat k)) \<le> 10" by (simp add: length_show_nat)
  then show False using k len by (simp add: show_int_def)
qed

lemma jsLength_ascii: "\<forall>c \<in> set s. (of_char c :: nat) < 128 \<Longrightarrow> jsLength s = length s"
proof (induction s)
  case Nil
  then show ?case by (simp add: jsLength_def)
next
  case (Cons c s)
  then show ?case by (simp add: jsLength_def)
qed

lemma jsLength_show_int: "jsLength (show_int k) = length (show_int k)"
proof (rule jsLength_ascii)
  show "\<forall>c \<in> set (show_int k). (of_char c :: nat) < 128"
    using show_nat_decimal decimal_props(7) by (auto simp: show_int_def)
qed

section \<open>Dates close to the epoch\<close>

lemma formatDate_falsy: "\<not> truthy d \<Longrightarrow> formatDate h d = Empty"
  by (simp add: formatDate_def)

lemma formatDate_numeric:
  assumes "truthy d"
    and "(case d of Some (JNum n) \<Rightarrow> True | _ \<Rightarrow> False) \<or> parseInt (toStringJS h d) 0 \<noteq> NaN"
  shows "formatDate h d = Empty \<longleftrightarrow>
           jsLess (jsMul (parseInt (toStringJS h d) 0)
                     (Fin (if jsLength (toStringJS h d) \<le> 10 then 1000 else 1)))
                  (Fin 86400000)"
  using assms by (auto simp add: formatDate_def Let_def)

text \<open>A string that \<^verbatim>\<open>parseInt\<close> reads no number from is tested on its local year.\<close>

lemma formatDate_date_string:
  assumes "s \<noteq> []" and "parseInt s 0 = NaN"
  shows "formatDate h (Some (JStr s)) = Empty \<longleftrightarrow>
           (case Date_parse h s of None \<Rightarrow> True | Some t \<Rightarrow> fullYearIs h t 1970)"
  using assms by (simp add: formatDate_def split: option.splits)

lemma jsMul_int:
  assumes "\<bar>a * b\<bar> < 2 ^ 53" and "a \<noteq> 0" and "b \<noteq> 0"
  shows "jsMul (Fin (of_int a)) (Fin (of_int b)) = Fin (of_int (a * b))"
proof -
  have "jsMul (Fin (of_int a)) (Fin (of_int b)) = roundDouble (of_int (a * b))"
    using assms(2,3) by (simp add: jsMul_def)
  then show ?thesis using assms(1) by (simp only: roundDouble_int)
qed

lemma jsLess_int: "jsLess (Fin (of_int a)) (Fin (of_int b)) = (a < b)"
  by (simp add: jsLess_def)

lemma show_nat_bound: "n < 10 ^ length (show_nat n)"
proof (induction n rule: show_nat.induct)
  case (1 n)
  show ?case
  proof (cases "n < 10")
    case True
    then show ?thesis by (simp add: show_nat.simps [of n])
  next
    case False
    then have "n div 10 < 10 ^ length (show_nat (n div 10))" using 1 by simp
    then have "n < 10 * 10 ^ length (show_nat (n div 10))" by simp
    then show ?thesis using False by (simp add: show_nat.simps [of n])
  qed
qed

lemma short_numeral:
  assumes "length (show_int k) \<le> 10"
  shows "\<bar>k\<bar> < 10 ^ 10"
proof -
  let ?n = "nat \<bar>k\<bar>"
  have "length (show_nat ?n) \<le> 10"
    using assms by (auto simp add: show_int_def split: if_splits)
  then have "(10::nat) ^ length (show_nat ?n) \<le> 10 ^ 10"
    by (intro power_increasing) simp_all
  then have "?n < 10 ^ 10" using show_nat_bound [of ?n] by linarith
  then show ?thesis by (simp add: nat_less_iff)
qed

lemma formatDate_int:
  assumes "\<bar>k\<bar> < 2 ^ 53"
  shows "formatDate h (Some (JNum (Fin (of_int k)))) = Empty \<longleftrightarrow> k < 86400"
proof (cases "k = 0")
  case True
  then show ?thesis by (simp add: formatDate_def)
next
  case False
  have small: "\<bar>k\<bar> < 10 ^ 21" using assms by simp
  have str: "toStringJS h (Some (JNum (Fin (of_int k)))) = show_int k"
    using small by (simp only: toStringJS.simps numToString_int)
  have read: "parseInt (show_int k) 0 = Fin (of_int k)"
    using assms by (simp add: parseInt_show_int)
  have truthy: "truthy (Some (JNum (Fin (of_int k))))" using False by simp
  define f :: int where "f = (if length (show_int k) \<le> 10 then 1000 else 1)"
  have f: "f \<noteq> 0" by (simp add: f_def)
  have product: "\<bar>k * f\<bar> < 2 ^ 53"
  proof (cases "length (show_int k) \<le> 10")
    case False
    then show ?thesis using assms by (simp add: f_def)
  next
    case True
    then have "\<bar>k\<bar> < 10 ^ 10" by (rule short_numeral)
    then have "\<bar>k\<bar> * 1000 < 2 ^ 53" by simp
    then show ?thesis using True by (simp add: f_def abs_mult)
  qed
  have factor: "Fin (if jsLength (show_int k) \<le> 10 then 1000 else 1) = Fin (of_int f)"
    by (simp add: f_def jsLength_show_int)
  have "formatDate h (Some (JNum (Fin (of_int k)))) = Empty \<longleftrightarrow>
          jsLess (jsMul (Fin (of_int k)) (Fin (of_int f))) (Fin 86400000)"
    using formatDate_numeric [OF truthy, of h] by (simp only: str read factor) simp
  also have "\<dots> \<longleftrightarrow> k * f < 86400000"
    using jsLess_int [of "k * f" 86400000] by (simp add: jsMul_int [OF product False f])
  also have "\<dots> \<longleftrightarrow> k < 86400"
  proof (cases "length (show_int k) \<le> 10")
    case True
    then show ?thesis by (simp add: f_def)
  next
    case long: False
    show ?thesis
    proof (cases "0 \<le> k")
      case True
      then have "10 ^ 10 \<le> k" using long long_numeral [of k] by simp
      then show ?thesis using long by (simp add: f_def)
    next
      case False
      then show ?thesis using long by (simp add: f_def)
    qed
  qed
  finally show ?thesis .
qed

text \<open>
  What holds on the numeric path: \<^verbatim>\<open>formatDate\<close> returns the empty text for 0 and every
  other falsy input, and for a number, or a string that \<^verbatim>\<open>parseInt\<close> reads a number from,
  exactly when that number, taken as seconds (times 1000) when the input has at most 10
  characters and as milliseconds otherwise, is under 86,400,000; for an integer \<open>k\<close> below
  \<open>2\<^sup>5\<^sup>3\<close> in magnitude this is exactly when \<open>k < 86400\<close>.
\<close>

lemma formatDate_numeric_no_date:
  "(\<not> truthy d \<longrightarrow> formatDate h d = Empty)
   \<and> (truthy d \<longrightarrow>
        (case d of Some (JNum n) \<Rightarrow> True | _ \<Rightarrow> False) \<or> parseInt (toStringJS h d) 0 \<noteq> NaN \<longrightarrow>
        (formatDate h d = Empty \<longleftrightarrow>
           jsLess (jsMul (parseInt (toStringJS h d) 0)
                     (Fin (if jsLength (toStringJS h d) \<le> 10 then 1000 else 1)))
                  (Fin 86400000)))
   \<and> (\<bar>k\<bar> < 2 ^ 53 \<longrightarrow> (formatDate h (Some (JNum (Fin (of_int k)))) = Empty \<longleftrightarrow> k < 86400))"
  using formatDate_falsy [of d h] formatDate_numeric [of d h] formatDate_int [of k h]
  by blast

text \<open>
  Claim C9 says that every timestamp input that resolves to an instant under 86,400,000
  milliseconds is rendered as the empty text. A date string that \<^verbatim>\<open>parseInt\<close> reads no
  number from goes through \<^verbatim>\<open>new Date\<close>, where the code tests the year in local time
  (its comment: a valid date and not Jan 1, 1970). Five hours west of Greenwich the HTTP
  date of the epoch resolves to the instant 0, its local year is 1969, and \<^verbatim>\<open>formatDate\<close>
  returns the locale text of that instant instead of the empty text.
\<close>

theorem formatDate_epoch_string_rendered:
  "newDate newYorkHost (Some (JStr ''Thu, 01 Jan 1970 00:00:00 GMT'')) = Some 0
   \<and> parseInt ''Thu, 01 Jan 1970 00:00:00 GMT'' 0 = NaN
   \<and> \<not> fullYearIs newYorkHost 0 1970
   \<and> fullYearIs newYorkHost 0 1969
   \<and> formatDate newYorkHost (Some (JStr ''Thu, 01 Jan 1970 00:00:00 GMT'')) = LocaleString (Some 0)"
proof -
  have read: "parseInt ''Thu, 01 Jan 1970 00:00:00 GMT'' 0 = NaN"
    by (simp add: parseInt_def trimStart_first whiteSpace_def isRadixDigit_def digitValue_def)
  have year: "\<not> fullYearIs newYorkHost 0 1970" "fullYearIs newYorkHost 0 1969"
    by (simp_all add: fullYearIs_def dayFromYear_def Day_def LocalTime_def msPerDay_def
          newYorkHost_def)
  have date: "newDate newYorkHost (Some (JStr ''Thu, 01 Jan 1970 00:00:00 GMT'')) = Some 0"
    by (simp add: newYorkHost_def)
  show ?thesis
    using read year date by (simp add: formatDate_def)
qed

section \<open>Quantity edits that are not accepted\<close>


lemma findIndex_Some:
  "findIndex P xs = Some k \<Longrightarrow> k < length xs \<and> P (xs ! k)"
proof (induction xs arbitrary: k)
  case Nil
  then show ?case by simp
next
  case (Cons x xs)
  then show ?case by (cases "P x") auto
qed








section \<open>Statuses over sequences of operations\<close>

lemma sortOrders_single: "sortOrders h [x] = [x]"
proof (cases "consistentComparator h [x]")
  case True
  then show ?thesis by (simp add: sortOrders_def insertionSort_def)
next
  case False
  let ?p = "Array_sort h (map (\<lambda>a. map (sortCompare h a) [x]) [x])"
  show ?thesis
  proof (cases "sort ?p = [0..<length [x]]")
    case True
    have "length ?p = length (sort ?p)" by simp
    also have "\<dots> = length [0..<length [x]]" by (simp only: True)
    finally have "length ?p = 1" by simp
    moreover have "set ?p = {0}" using positions_set [OF True] by simp
    ultimately have "?p = [0]" by (cases ?p) auto
    then show ?thesis using False True by (simp add: sortOrders_def Let_def)
  next
    case False
    then show ?thesis using \<open>\<not> consistentComparator h [x]\<close> by (simp add: sortOrders_def Let_def)
  qed
qed

lemma set_pending_updatePendingOrdersTable:
  "set (pendingOrdersData (updatePendingOrdersTable h s)) = set (pendingOrdersData s)"
  by (simp add: updatePendingOrdersTable_def pending_updateFilledOrdersTable set_sortOrders)

lemma leftPending_update:
  assumes "leftPending i data" and "oid y = i \<longrightarrow> status y \<noteq> Some (JStr ''pending'')"
  shows "leftPending i (data[k := y])"
  using assms set_update_subset_insert [of data k y] by (auto simp: leftPending_def)

lemma status_markProcessing: "status (markProcessing result order) = Some (JStr ''processing'')"
  by (simp add: markProcessing_def status_def getProp_def setProp_def Let_def split: option.splits)

lemma status_markCanceled:
  "status (markCanceled result order)
     = Some (JStr (if cancel_ib_status result = Some (JStr ''PendingCancel'') then ''canceling'' else ''canceled''))"
  by (simp add: markCanceled_def status_def getProp_def setProp_def Let_def)

lemma status_setQuantity: "status (setProp ''quantity'' v order) = status order"
  by (simp add: status_def getProp_def setProp_def)

lemma oid_setProp: "oid (setProp k v order) = oid order"
  by (simp add: setProp_def)

lemma status_mergeOrder:
  "status (mergeOrder local u) = (case status u of None \<Rightarrow> status local | Some v \<Rightarrow> Some v)"
  by (simp add: mergeOrder_def status_def getProp_def map_add_def split: option.splits)

lemma leftPending_applyUpdate:
  assumes "leftPending i data" and "status u \<noteq> Some (JStr ''pending'')"
  shows "leftPending i (fst (applyUpdate u (data, b)))"
proof (cases "findIndex (\<lambda>order. oid order = oid u) data")
  case None
  then show ?thesis using assms(1) by (simp add: applyUpdate_def)
next
  case (Some k)
  then have k: "k < length data" "oid (data ! k) = oid u"
    using findIndex_Some [of "\<lambda>order. oid order = oid u" data k] by simp_all
  have "oid (mergeOrder (data ! k) u) = i \<longrightarrow>
          status (mergeOrder (data ! k) u) \<noteq> Some (JStr ''pending'')"
  proof
    assume "oid (mergeOrder (data ! k) u) = i"
    then have "oid (data ! k) = i" using k by (simp add: mergeOrder_def)
    then have "status (data ! k) \<noteq> Some (JStr ''pending'')"
      using assms(1) k(1) by (auto simp: leftPending_def)
    then show "status (mergeOrder (data ! k) u) \<noteq> Some (JStr ''pending'')"
      using assms(2) by (auto simp add: status_mergeOrder split: option.splits)
  qed
  then show ?thesis using Some assms(1) by (simp add: applyUpdate_def leftPending_update)
qed

lemma leftPending_applyUpdates:
  assumes "leftPending i data" and "\<forall>u \<in> set us. status u \<noteq> Some (JStr ''pending'')"
  shows "leftPending i (fst (applyUpdates us data))"
proof -
  have "leftPending i (fst acc) \<Longrightarrow> \<forall>u \<in> set us. status u \<noteq> Some (JStr ''pending'') \<Longrightarrow>
          leftPending i (fst (foldl (\<lambda>acc u. applyUpdate u acc) acc us))" for acc
  proof (induction us arbitrary: acc)
    case Nil
    then show ?case by simp
  next
    case (Cons u us)
    have "leftPending i (fst (applyUpdate u acc))"
      using Cons.prems leftPending_applyUpdate [of i "fst acc" u "snd acc"] by simp
    then show ?case using Cons.IH [of "applyUpdate u acc"] Cons.prems by simp
  qed
  then show ?thesis using assms by (simp add: applyUpdates_def)
qed

lemma leftPending_set: "set xs = set ys \<Longrightarrow> leftPending i xs = leftPending i ys"
  by (simp add: leftPending_def)

lemma leftPending_executeOrderById:
  assumes "leftPending i (pendingOrdersData s)"
  shows "leftPending i (pendingOrdersData (executeOrderById h orderId settled s))"
proof (cases settled)
  case (Rejected message)
  then show ?thesis using assms by (simp add: executeOrderById_def pending_showAlert pending_send)
next
  case (Resolved result)
  show ?thesis
  proof (cases "findIndex (\<lambda>order. oid order = orderId) (pendingOrdersData s)")
    case None
    then show ?thesis
      using assms Resolved
      by (simp add: executeOrderById_def pending_startAutoRefresh pending_showAlert pending_send Let_def)
  next
    case (Some k)
    have "leftPending i ((pendingOrdersData s)[k := markProcessing result (pendingOrdersData s ! k)])"
      using assms by (rule leftPending_update) (simp add: status_markProcessing)
    then show ?thesis
      using Some Resolved
        leftPending_set [OF set_pending_updatePendingOrdersTable, of i h]
      by (simp add: executeOrderById_def pending_startAutoRefresh pending_showAlert pending_send Let_def)
  qed
qed


lemma leftPending_cancelOrderById:
  assumes "leftPending i (pendingOrdersData s)"
  shows "leftPending i (pendingOrdersData (cancelOrderById h orderId settled s))"
proof (cases settled)
  case (Rejected message)
  then show ?thesis using assms by (simp add: cancelOrderById_def pending_showAlert pending_send)
next
  case (Resolved result)
  show ?thesis
  proof (cases "findIndex (\<lambda>order. oid order = orderId) (pendingOrdersData s)")
    case None
    then show ?thesis
      using assms Resolved
      by (simp add: cancelOrderById_def pending_startAutoRefresh pending_showAlert pending_send Let_def)
  next
    case (Some k)
    have "leftPending i ((pendingOrdersData s)[k := markCanceled result (pendingOrdersData s ! k)])"
      using assms by (rule leftPending_update) (simp add: status_markCanceled)
    then show ?thesis
      using Some Resolved
        leftPending_set [OF set_pending_updatePendingOrdersTable, of i h]
      by (simp add: cancelOrderById_def pending_startAutoRefresh pending_showAlert pending_send Let_def)
  qed
qed

lemma leftPending_updateOrderQuantity:
  assumes "leftPending i (pendingOrdersData s)"
  shows "leftPending i (pendingOrdersData (updateOrderQuantity h orderId n settled s))"
proof (cases "findIndex (\<lambda>order. oid order = orderId) (pendingOrdersData s)")
  case None
  then show ?thesis using assms by (simp add: updateOrderQuantity_def)
next
  case (Some k)
  then have k: "k < length (pendingOrdersData s)"
    using findIndex_Some [of "\<lambda>order. oid order = orderId" "pendingOrdersData s" k] by simp
  have "leftPending i
          ((pendingOrdersData s)[k := setProp ''quantity'' (Some (JNum n)) (pendingOrdersData s ! k)])"
    using assms
  proof (rule leftPending_update)
    show "oid (setProp ''quantity'' (Some (JNum n)) (pendingOrdersData s ! k)) = i \<longrightarrow>
            status (setProp ''quantity'' (Some (JNum n)) (pendingOrdersData s ! k))
              \<noteq> Some (JStr ''pending'')"
      using assms k by (auto simp: leftPending_def status_setQuantity oid_setProp)
  qed
  then show ?thesis
    using Some
    by (cases settled) (simp_all add: updateOrderQuantity_def pending_showAlert pending_send Let_def)
qed

lemma leftPending_quantityInputListener:
  assumes "leftPending i (pendingOrdersData s)"
  shows "leftPending i (pendingOrdersData (fst (quantityInputListener h orderId v settled s)))"
  using assms leftPending_updateOrderQuantity [OF assms]
  by (simp add: quantityInputListener_def Let_def split: option.splits)

lemma leftPending_checkOrdersStatus:
  assumes "leftPending i (pendingOrdersData s)"
    and "\<not> carriesPending (StatusPolled settled settledFilled)"
  shows "leftPending i (pendingOrdersData (checkOrdersStatus h settled settledFilled s))"
proof (cases settled)
  case (Rejected message)
  then show ?thesis
    using assms(1) by (simp add: checkOrdersStatus_def pending_stopAutoRefresh pending_send Let_def)
next
  case (Resolved result)
  then have clean: "\<forall>u \<in> set (updated_orders result). status u \<noteq> Some (JStr ''pending'')"
    using assms(2) by (simp add: carriesPending_def)
  have merged: "leftPending i (fst (applyUpdates (updated_orders result) (pendingOrdersData s)))"
    using assms(1) clean by (rule leftPending_applyUpdates)
  have table: "leftPending i (pendingOrdersData (updatePendingOrdersTable h
                 (send CheckOrderStatus s
                    \<lparr>pendingOrdersData := fst (applyUpdates (updated_orders result) (pendingOrdersData s))\<rparr>)))"
    using merged leftPending_set [OF set_pending_updatePendingOrdersTable, of i h]
    by simp
  show ?thesis
    using Resolved assms(1) table
    by (simp add: checkOrdersStatus_def pending_stopAutoRefresh pending_send pending_loadFilledOrders
          Let_def)
qed

lemma leftPending_handleEvent:
  assumes "leftPending i (pendingOrdersData s)" and "\<not> carriesPending e"
  shows "leftPending i (pendingOrdersData (handleEvent h e s))"
proof (cases e)
  case (ExecuteClicked orderId settled)
  then show ?thesis using assms(1) by (simp add: leftPending_executeOrderById)
next
  case (CancelClicked orderId settled)
  then show ?thesis using assms(1) by (simp add: leftPending_cancelOrderById)
next
  case (StatusPolled settled settledFilled)
  then show ?thesis using assms by (simp add: leftPending_checkOrdersStatus)
next
  case (QuantityEdited orderId v settled)
  then show ?thesis using assms(1) by (simp add: leftPending_quantityInputListener)
qed

lemma leftPending_runEvents:
  assumes "\<forall>(h, e) \<in> set events. \<not> carriesPending e"
    and "leftPending i (pendingOrdersData s)"
  shows "leftPending i (pendingOrdersData (runEvents events s))"
  using assms unfolding runEvents_def
proof (induction events arbitrary: s)
  case Nil
  then show ?case by simp
next
  case (Cons x events)
  obtain h e where x: "x = (h, e)" by (cases x)
  have "leftPending i (pendingOrdersData (handleEvent h e s))"
    using Cons.prems x by (simp add: leftPending_handleEvent)
  then show ?case using Cons.IH [of "handleEvent h e s"] Cons.prems x by simp
qed

text \<open>
  Claim C2, as the code has it. Over every sequence of execute, cancel, status-check and
  quantity operations in which no fragment of a status check carries the status \<open>pending\<close>,
  an identifier whose orders are not \<open>pending\<close> never has a \<open>pending\<close> order again. What each
  operation writes: execute writes \<open>processing\<close> and cancel writes \<open>canceling\<close> or \<open>canceled\<close>,
  whatever the status was; a quantity edit leaves the status as it is; a merge writes the
  status its fragment carries and keeps the local one when the fragment carries none.
\<close>

theorem pending_not_reintroduced:
  "((\<forall>(h, e) \<in> set events. \<not> carriesPending e) \<longrightarrow> leftPending i (pendingOrdersData s) \<longrightarrow>
      leftPending i (pendingOrdersData (runEvents events s)))
   \<and> status (markProcessing result order) = Some (JStr ''processing'')
   \<and> status (markCanceled canceled order)
       = Some (JStr (if cancel_ib_status canceled = Some (JStr ''PendingCancel'')
                     then ''canceling'' else ''canceled''))
   \<and> status (setProp ''quantity'' v order) = status order
   \<and> status (mergeOrder order u) = (case status u of None \<Rightarrow> status order | Some st \<Rightarrow> Some st)"
  using leftPending_runEvents [of events i s]
  by (simp add: status_markProcessing status_markCanceled status_setQuantity status_mergeOrder)

text \<open>
  Order 42 is processing; it is cancelled (the gateway answers \<open>PendingCancel\<close>) and the next
  status check reports it canceled.
\<close>

theorem pending_not_reintroduced_witness:
  "\<not> carriesPending (CancelClicked 42 (Resolved \<lparr>cancel_ib_status = Some (JStr ''PendingCancel'')\<rparr>))
   \<and> \<not> carriesPending
         (StatusPolled (Resolved \<lparr>success = True, updated_orders = [orderWithStatus 42 ''canceled'']\<rparr>)
            (Rejected []))
   \<and> leftPending 42 [orderWithStatus 42 ''processing'']
   \<and> leftPending 42
        (pendingOrdersData
           (runEvents
              [(utcHost, CancelClicked 42 (Resolved \<lparr>cancel_ib_status = Some (JStr ''PendingCancel'')\<rparr>)),
               (utcHost, StatusPolled
                           (Resolved \<lparr>success = True, updated_orders = [orderWithStatus 42 ''canceled'']\<rparr>)
                           (Rejected []))]
              (initialPage\<lparr>pendingOrdersData := [orderWithStatus 42 ''processing'']\<rparr>)))"
  using pending_not_reintroduced
    [where events =
       "[(utcHost, CancelClicked 42 (Resolved \<lparr>cancel_ib_status = Some (JStr ''PendingCancel'')\<rparr>)),
         (utcHost, StatusPolled
                     (Resolved \<lparr>success = True, updated_orders = [orderWithStatus 42 ''canceled'']\<rparr>)
                     (Rejected []))]"
       and i = 42
       and s = "initialPage\<lparr>pendingOrdersData := [orderWithStatus 42 ''processing'']\<rparr>"]
  by (simp add: carriesPending_def leftPending_def orderWithStatus_def status_def getProp_def)

text \<open>
  Claim C2 as stated fails. A status check whose fragment for the processing order 42 says
  \<open>pending\<close> sets the order back to \<open>pending\<close>; cancelling a processing order makes it
  \<open>canceled\<close>, and executing an executed order makes it \<open>processing\<close>, neither of which is
  a transition of the state machine.
\<close>

theorem status_back_to_pending_counterexample:
  "map status
     (pendingOrdersData
        (checkOrdersStatus utcHost
           (Resolved \<lparr>success = True, updated_orders = [orderWithStatus 42 ''pending'']\<rparr>)
           (Rejected [])
           (initialPage\<lparr>pendingOrdersData := [orderWithStatus 42 ''processing'']\<rparr>)))
     = [Some (JStr ''pending'')]
   \<and> map status
       (pendingOrdersData
          (cancelOrderById utcHost 42 (Resolved \<lparr>cancel_ib_status = None\<rparr>)
             (initialPage\<lparr>pendingOrdersData := [orderWithStatus 42 ''processing'']\<rparr>)))
       = [Some (JStr ''canceled'')]
   \<and> map status
       (pendingOrdersData
          (executeOrderById utcHost 42 (Resolved \<lparr>ib_order_id = None, execution_details = None\<rparr>)
             (initialPage\<lparr>pendingOrdersData := [orderWithStatus 42 ''executed'']\<rparr>)))
       = [Some (JStr ''processing'')]"
  by (simp add: checkOrdersStatus_def cancelOrderById_def executeOrderById_def hasProcessingOrders_def
        applyUpdates_def applyUpdate_def mergeOrder_def updatePendingOrdersTable_def
        updateFilledOrdersTable_def sortOrders_single send_def showAlert_def startAutoRefresh_def
        stopAutoRefresh_def timerSet_def markCanceled_def markProcessing_def setProp_def
        orderWithStatus_def status_def getProp_def initialPage_def Let_def js_or_def)

end
